theory Spec2Isabelle
  imports Complex_Main
begin

section \<open>GridModel (src/core/grid.js)\<close>

text \<open>
  A grid is a JavaScript array of rows, each an array of cells: a list of lists. Row and
  column indices are JavaScript numbers holding integers (they may be negative or too large),
  so they are \<open>int\<close>. Reading an array outside its range gives \<open>undefined\<close>, which is
  \<open>None\<close> here.
\<close>

type_synonym 'a grid = "'a list list"

type_synonym pos = "int \<times> int"

definition jsIndex :: "'a list \<Rightarrow> int \<Rightarrow> 'a option" where
  "jsIndex xs i = (if 0 \<le> i \<and> i < int (length xs) then Some (xs ! nat i) else None)"

definition getGridDimensions :: "'a grid \<Rightarrow> int \<times> int" where
  "getGridDimensions grid =
     (let rows = int (length grid);
          cols = (if rows > 0 then int (length (grid ! 0)) else 0)
      in (rows, cols))"

definition isValidPosition :: "'a grid \<Rightarrow> int \<Rightarrow> int \<Rightarrow> bool" where
  "isValidPosition grid row col =
     (if length grid = 0 then False
      else (let rows = int (length grid);
                cols = int (length (grid ! 0))
            in row \<ge> 0 \<and> row < rows \<and> col \<ge> 0 \<and> col < cols))"

definition getCellColor :: "'a grid \<Rightarrow> int \<Rightarrow> int \<Rightarrow> 'a option" where
  "getCellColor grid row col =
     (if \<not> isValidPosition grid row col then None
      else jsIndex (grid ! nat row) col)"

definition setCellColor :: "'a grid \<Rightarrow> int \<Rightarrow> int \<Rightarrow> 'a \<Rightarrow> 'a grid" where
  "setCellColor grid row col color =
     (if \<not> isValidPosition grid row col then grid
      else map (\<lambda>(r, gridRow).
                 if int r = row
                 then map (\<lambda>(c, cellColor). if int c = col then color else cellColor)
                        (enumerate 0 gridRow)
                 else gridRow)
             (enumerate 0 grid))"

definition cloneGrid :: "'a grid \<Rightarrow> 'a grid" where
  "cloneGrid grid = map (\<lambda>row. row) grid"

text \<open>The data model's invariant on grids: all rows have the length of the first one.\<close>

definition rectangular :: "'a grid \<Rightarrow> bool" where
  "rectangular grid = list_all (\<lambda>row. length row = length (hd grid)) grid"

section \<open>FloodFillEngine (src/core/grid.js, second part)\<close>

definition getNeighbors :: "int \<Rightarrow> int \<Rightarrow> int \<Rightarrow> int \<Rightarrow> pos list" where
  "getNeighbors totalRows totalCols row col =
     (let directions = [(row - 1, col), (row + 1, col), (row, col - 1), (row, col + 1)]
      in filter (\<lambda>(r, c). r \<ge> 0 \<and> r < totalRows \<and> c \<ge> 0 \<and> c < totalCols) directions)"

text \<open>
  The source keys its \<open>visited\<close> set by the string \<open>"row,col"\<close>. For integers that string
  determines the pair and the pair determines the string, so the key is the pair itself.
\<close>

definition createPositionKey :: "int \<Rightarrow> int \<Rightarrow> pos" where
  "createPositionKey row col = (row, col)"

text \<open>
  \<open>originalColor\<close> is the result of \<open>getCellColor\<close>, hence an option: \<open>===\<close> compares it
  with the result of another \<open>getCellColor\<close>.
\<close>

definition shouldProcessCell :: "'a grid \<Rightarrow> int \<Rightarrow> int \<Rightarrow> 'a option \<Rightarrow> bool" where
  "shouldProcessCell grid row col originalColor = (getCellColor grid row col = originalColor)"

definition processCellsAtLevel :: "'a grid \<Rightarrow> pos list \<Rightarrow> 'a \<Rightarrow> 'a grid" where
  "processCellsAtLevel grid cells targetColor =
     foldl (\<lambda>currentGrid (r, c). setCellColor currentGrid r c targetColor) grid cells"

definition getUnvisitedNeighbors :: "int \<Rightarrow> int \<Rightarrow> int \<Rightarrow> int \<Rightarrow> pos set \<Rightarrow> pos list" where
  "getUnvisitedNeighbors rows cols row col visited =
     (let neighbors = getNeighbors rows cols row col
      in filter (\<lambda>(nr, nc). createPositionKey nr nc \<notin> visited)
           (map (\<lambda>(nr, nc). (nr, nc)) neighbors))"

text \<open>
  The \<open>flatMap\<close> of \<open>floodFillRecursive\<close>: it walks the processed cells in order, and adds
  each cell's unvisited neighbours to the shared \<open>visited\<close> set before it looks at the next
  cell. The set is mutated in place in the source; here it is passed along and returned.
\<close>

fun collectNextLevel :: "int \<Rightarrow> int \<Rightarrow> pos list \<Rightarrow> pos set \<Rightarrow> pos list \<times> pos set" where
  "collectNextLevel rows cols [] visited = ([], visited)"
| "collectNextLevel rows cols ((r, c) # cells) visited =
     (let neighbors = getUnvisitedNeighbors rows cols r c visited;
          visited1 = fold (\<lambda>(nr, nc) v. insert (createPositionKey nr nc) v) neighbors visited;
          (rest, visited2) = collectNextLevel rows cols cells visited1
      in (neighbors @ rest, visited2))"

lemma fold_insert_keys:
  "fold (\<lambda>(nr, nc) v. insert (createPositionKey nr nc) v) ns visited = visited \<union> set ns"
  by (induction ns arbitrary: visited) (auto simp: createPositionKey_def)

lemma getUnvisitedNeighbors_set:
  "set (getUnvisitedNeighbors rows cols r c visited) =
     {p \<in> set (getNeighbors rows cols r c). p \<notin> visited}"
  by (auto simp: getUnvisitedNeighbors_def createPositionKey_def)

lemma getNeighbors_set:
  "set (getNeighbors rows cols r c) =
     {(nr, nc). (nr, nc) \<in> {(r - 1, c), (r + 1, c), (r, c - 1), (r, c + 1)} \<and>
                0 \<le> nr \<and> nr < rows \<and> 0 \<le> nc \<and> nc < cols}"
  unfolding getNeighbors_def Let_def set_filter by auto

lemma getNeighbors_bounds:
  "(nr, nc) \<in> set (getNeighbors rows cols r c) \<Longrightarrow> 0 \<le> nr \<and> nr < rows \<and> 0 \<le> nc \<and> nc < cols"
  by (simp add: getNeighbors_set)

lemma collectNextLevel_Cons:
  "collectNextLevel rows cols ((r, c) # cells) visited =
     (getUnvisitedNeighbors rows cols r c visited @
        fst (collectNextLevel rows cols cells
              (visited \<union> set (getUnvisitedNeighbors rows cols r c visited))),
      snd (collectNextLevel rows cols cells
              (visited \<union> set (getUnvisitedNeighbors rows cols r c visited))))"
  by (simp add: fold_insert_keys Let_def split: prod.splits)

lemma collectNextLevel_visited:
  "snd (collectNextLevel rows cols cells visited) =
     visited \<union> set (fst (collectNextLevel rows cols cells visited))"
proof (induction cells arbitrary: visited)
  case Nil
  show ?case by simp
next
  case (Cons cell cells)
  obtain r c where cell: "cell = (r, c)" by (cases cell)
  show ?case
    unfolding cell collectNextLevel_Cons using Cons.IH by auto
qed

lemma collectNextLevel_fresh:
  "set (fst (collectNextLevel rows cols cells visited)) \<subseteq>
     ({0..<rows} \<times> {0..<cols}) - visited"
proof (induction cells arbitrary: visited)
  case Nil
  show ?case by simp
next
  case (Cons cell cells)
  obtain r c where cell: "cell = (r, c)" by (cases cell)
  let ?ns = "getUnvisitedNeighbors rows cols r c visited"
  have ns: "set ?ns \<subseteq> ({0..<rows} \<times> {0..<cols}) - visited"
    by (auto simp: getUnvisitedNeighbors_set dest: getNeighbors_bounds)
  have "set (fst (collectNextLevel rows cols cells (visited \<union> set ?ns)))
          \<subseteq> ({0..<rows} \<times> {0..<cols}) - (visited \<union> set ?ns)"
    by (rule Cons.IH)
  with ns show ?case
    unfolding cell collectNextLevel_Cons by auto
qed

lemma collectNextLevel_measure:
  assumes "collectNextLevel rows cols cells visited = (nextLevel, visited')"
    and "nextLevel \<noteq> []"
  shows "card (({0..<rows} \<times> {0..<cols}) - visited') < card (({0..<rows} \<times> {0..<cols}) - visited)"
proof -
  have v': "visited' = visited \<union> set nextLevel"
    using collectNextLevel_visited [of rows cols cells visited] assms(1) by simp
  have fresh: "set nextLevel \<subseteq> ({0..<rows} \<times> {0..<cols}) - visited"
    using collectNextLevel_fresh [of rows cols cells visited] assms(1) by simp
  obtain p where p: "p \<in> set nextLevel"
    using assms(2) by (cases nextLevel) auto
  have "({0..<rows} \<times> {0..<cols}) - visited' \<subset> ({0..<rows} \<times> {0..<cols}) - visited"
    using p fresh v' by blast
  then show ?thesis
    by (intro psubset_card_mono) auto
qed

function floodFillRecursive ::
  "'a grid \<Rightarrow> pos list \<Rightarrow> 'a option \<Rightarrow> 'a \<Rightarrow> pos set \<Rightarrow> int \<Rightarrow> int \<Rightarrow> 'a grid list \<Rightarrow> 'a grid list"
  where
  "floodFillRecursive grid currentLevel originalColor targetColor visited rows cols snapshots =
     (if length currentLevel = 0 then snapshots
      else
        (let cellsToProcess =
               filter (\<lambda>(r, c). shouldProcessCell grid r c originalColor) currentLevel
         in if length cellsToProcess = 0 then snapshots
            else
              (let newGrid = processCellsAtLevel grid cellsToProcess targetColor;
                   newSnapshots = snapshots @ [cloneGrid newGrid];
                   (nextLevel, visited') = collectNextLevel rows cols cellsToProcess visited
               in floodFillRecursive newGrid nextLevel originalColor targetColor visited'
                    rows cols newSnapshots)))"
  by pat_completeness auto
termination
proof (relation "measure (\<lambda>(grid, currentLevel, originalColor, targetColor, visited, rows, cols,
          snapshots). 2 * card (({0..<rows} \<times> {0..<cols}) - visited)
                        + (if currentLevel = [] then 0 else 1))", goal_cases)
  case 1
  show ?case by simp
next
  case (2 grid currentLevel originalColor targetColor visited rows cols snapshots
          cellsToProcess newGrid newSnapshots p nextLevel visited')
  show ?case
  proof (cases "nextLevel = []")
    case True
    have "visited' = visited"
      using collectNextLevel_visited [of rows cols cellsToProcess visited] 2 True
      by (metis Un_empty_right fst_conv set_empty snd_conv)
    with True 2 show ?thesis by simp
  next
    case False
    have "card (({0..<rows} \<times> {0..<cols}) - visited')
            < card (({0..<rows} \<times> {0..<cols}) - visited)"
      using collectNextLevel_measure [of rows cols cellsToProcess visited nextLevel visited']
        2 False by simp
    with False 2 show ?thesis by simp
  qed
qed

declare floodFillRecursive.simps [simp del]

definition floodFill :: "'a grid \<Rightarrow> int \<Rightarrow> int \<Rightarrow> 'a \<Rightarrow> 'a grid list" where
  "floodFill grid row col targetColor =
     (if \<not> isValidPosition grid row col then [cloneGrid grid]
      else
        (let originalColor = getCellColor grid row col
         in if originalColor = Some targetColor then [cloneGrid grid]
            else
              (let (rows, cols) = getGridDimensions grid;
                   initialSnapshots = [cloneGrid grid];
                   visited = {createPositionKey row col};
                   startingLevel = [(row, col)]
               in floodFillRecursive grid startingLevel originalColor targetColor visited
                    rows cols initialSnapshots)))"

section \<open>Direction classification (src/utils/gridHelpers.js)\<close>

definition determineFlipDirection :: "int \<Rightarrow> int \<Rightarrow> int \<Rightarrow> int \<Rightarrow> string" where
  "determineFlipDirection row col totalRows totalCols =
     (let gridCenterRow = \<lfloor>real_of_int totalRows / 2\<rfloor>;
          gridCenterCol = \<lfloor>real_of_int totalCols / 2\<rfloor>
      in if row < gridCenterRow then ''up''
         else if row > gridCenterRow then ''down''
         else if col < gridCenterCol then ''left''
         else if col > gridCenterCol then ''right''
         else ''center'')"

section \<open>Notions the flood-fill claims are stated with\<close>

text \<open>
  The cells of a snapshot that differ from the cells of the grid the fill started from.
\<close>

definition changedCells :: "'a grid \<Rightarrow> 'a grid \<Rightarrow> pos set" where
  "changedCells grid snapshot =
     {(r, c). isValidPosition grid r c \<and> getCellColor snapshot r c \<noteq> getCellColor grid r c}"

text \<open>
  4-connectivity: two positions are adjacent when they differ by one step in one direction.
  The region of a start cell is the least set that holds the start cell and every valid
  cell adjacent to a member that has the start cell's colour.
\<close>

definition adjacent :: "pos \<Rightarrow> pos \<Rightarrow> bool" where
  "adjacent p q = (\<bar>fst p - fst q\<bar> + \<bar>snd p - snd q\<bar> = 1)"

inductive_set region :: "'a grid \<Rightarrow> int \<Rightarrow> int \<Rightarrow> pos set" for grid row col where
  start: "isValidPosition grid row col \<Longrightarrow> (row, col) \<in> region grid row col"
| step: "(r, c) \<in> region grid row col \<Longrightarrow> adjacent (r, c) (r', c') \<Longrightarrow>
         isValidPosition grid r' c' \<Longrightarrow>
         getCellColor grid r' c' = getCellColor grid row col \<Longrightarrow>
         (r', c') \<in> region grid row col"

text \<open>
  Invariants of the recursion. A grid conforms when it has the shape of the starting grid
  and each cell either is untouched or went from the original colour to the target colour.
\<close>

definition conforming :: "'a grid \<Rightarrow> 'a \<Rightarrow> 'a \<Rightarrow> 'a grid \<Rightarrow> bool" where
  "conforming g orig target s \<longleftrightarrow>
     map length s = map length g \<and>
     (\<forall>r c. getCellColor s r c = getCellColor g r c \<or>
            (getCellColor g r c = Some orig \<and> getCellColor s r c = Some target))"

definition growing :: "'a grid \<Rightarrow> 'a grid list \<Rightarrow> bool" where
  "growing g snaps = successively (\<lambda>s s'. changedCells g s \<subset> changedCells g s') snaps"

text \<open>
  The breadth-first invariant: painted cells lie in the region, cells of the level that have
  the original colour lie in the region, a visited cell of the original colour is painted or
  waits in the level, every valid neighbour of a painted cell is visited, and the start is
  visited.
\<close>

definition fillInv ::
  "'a grid \<Rightarrow> int \<Rightarrow> int \<Rightarrow> 'a \<Rightarrow> 'a \<Rightarrow> 'a grid \<Rightarrow> pos list \<Rightarrow> pos set \<Rightarrow> bool" where
  "fillInv g row col orig target grid level visited \<longleftrightarrow>
     map length grid = map length g \<and>
     (\<forall>r c. getCellColor grid r c = getCellColor g r c \<or>
            (getCellColor g r c = Some orig \<and> getCellColor grid r c = Some target \<and>
             (r, c) \<in> region g row col)) \<and>
     (\<forall>r c. (r, c) \<in> set level \<and> getCellColor g r c = Some orig \<longrightarrow>
            (r, c) \<in> region g row col) \<and>
     (\<forall>r c. (r, c) \<in> visited \<and> getCellColor g r c = Some orig \<longrightarrow>
            getCellColor grid r c = Some target \<or> (r, c) \<in> set level) \<and>
     (\<forall>r c r' c'. getCellColor g r c = Some orig \<and> getCellColor grid r c = Some target \<and>
            adjacent (r, c) (r', c') \<and> isValidPosition g r' c' \<longrightarrow> (r', c') \<in> visited) \<and>
     (row, col) \<in> visited"

section \<open>Basic facts about the grid primitives\<close>

lemma map_enumerate_update:
  "map (\<lambda>(i, x). if int i = k then v else x) (enumerate 0 xs) =
     (if 0 \<le> k then xs[nat k := v] else xs)"
  by (rule nth_equalityI) (auto simp: nth_enumerate_eq nth_list_update)

lemma map_enumerate_row_update:
  "map (\<lambda>(i, x). if int i = k then f x else x) (enumerate 0 xs) =
     (if 0 \<le> k \<and> k < int (length xs) then xs[nat k := f (xs ! nat k)] else xs)"
  by (rule nth_equalityI) (auto simp: nth_enumerate_eq nth_list_update)

lemma setCellColor_update:
  "isValidPosition grid row col \<Longrightarrow>
     setCellColor grid row col color = grid[nat row := (grid ! nat row)[nat col := color]]"
proof -
  assume v: "isValidPosition grid row col"
  have inner: "\<And>gridRow. map (\<lambda>(c, cellColor). if int c = col then color else cellColor)
                  (enumerate 0 gridRow) = gridRow[nat col := color]"
    using v by (simp add: map_enumerate_update isValidPosition_def Let_def split: if_splits)
  have "setCellColor grid row col color =
          map (\<lambda>(r, gridRow). if int r = row then gridRow[nat col := color] else gridRow)
            (enumerate 0 grid)"
    using v by (auto simp: setCellColor_def inner)
  also have "\<dots> = grid[nat row := (grid ! nat row)[nat col := color]]"
    using v map_enumerate_row_update [of row "\<lambda>gridRow. gridRow[nat col := color]" grid]
    by (simp add: isValidPosition_def Let_def split: if_splits)
  finally show ?thesis .
qed

lemma setCellColor_invalid:
  "\<not> isValidPosition grid row col \<Longrightarrow> setCellColor grid row col color = grid"
  by (simp add: setCellColor_def)

lemma cloneGrid_id: "cloneGrid grid = grid"
  by (simp add: cloneGrid_def)

lemma floor_half: "\<lfloor>real_of_int n / 2\<rfloor> = n div 2"
  by (simp add: floor_divide_of_int_eq [where ?'a = real, symmetric])

lemma map_length_setCellColor:
  "map length (setCellColor grid row col color) = map length grid"
proof (cases "isValidPosition grid row col")
  case True
  have "map length (grid[nat row := (grid ! nat row)[nat col := color]]) = map length grid"
  proof (rule nth_equalityI)
    fix i
    assume "i < length (map length (grid[nat row := (grid ! nat row)[nat col := color]]))"
    then have "i < length grid" by simp
    then show "map length (grid[nat row := (grid ! nat row)[nat col := color]]) ! i =
                 map length grid ! i"
      by (cases "i = nat row") simp_all
  qed simp
  with True show ?thesis
    by (simp add: setCellColor_update)
next
  case False
  then show ?thesis by (simp add: setCellColor_invalid)
qed

lemma length_setCellColor: "length (setCellColor grid row col color) = length grid"
  using map_length_setCellColor [of grid row col color] by (metis length_map)

lemma isValidPosition_shape:
  "map length grid' = map length grid \<Longrightarrow>
     isValidPosition grid' row col = isValidPosition grid row col"
proof -
  assume eq: "map length grid' = map length grid"
  then have len: "length grid' = length grid" by (metis length_map)
  show ?thesis
  proof (cases "grid = []")
    case True
    with len show ?thesis by (simp add: isValidPosition_def)
  next
    case False
    with len have ne: "grid' \<noteq> []" by auto
    have "length (grid' ! 0) = length (grid ! 0)"
      using eq False ne by (metis length_greater_0_conv nth_map)
    with len show ?thesis by (simp add: isValidPosition_def)
  qed
qed

lemma isValidPosition_setCellColor:
  "isValidPosition (setCellColor grid row col color) r c = isValidPosition grid r c"
  by (rule isValidPosition_shape) (rule map_length_setCellColor)

lemma getCellColor_setCellColor:
  "getCellColor (setCellColor grid row col color) r c =
     (if r = row \<and> c = col \<and> getCellColor grid row col \<noteq> None then Some color
      else getCellColor grid r c)"
proof (cases "isValidPosition grid row col")
  case False
  then show ?thesis by (simp add: setCellColor_invalid getCellColor_def)
next
  case True
  note v = this
  show ?thesis
  proof (cases "isValidPosition grid r c")
    case False
    then show ?thesis
      using v by (auto simp: getCellColor_def isValidPosition_setCellColor)
  next
    case True
    then have rlt: "nat r < length grid" and r0: "0 \<le> r"
      by (auto simp: isValidPosition_def Let_def split: if_splits)
    from v have rowlt: "nat row < length grid" and row0: "0 \<le> row" and col0: "0 \<le> col"
      by (auto simp: isValidPosition_def Let_def split: if_splits)
    have "jsIndex (grid[nat row := (grid ! nat row)[nat col := color]] ! nat r) c =
            (if r = row \<and> c = col \<and> jsIndex (grid ! nat row) col \<noteq> None then Some color
             else jsIndex (grid ! nat r) c)"
      using rlt r0 rowlt row0 col0
      by (auto simp: jsIndex_def nth_list_update nat_eq_iff)
    moreover have "getCellColor (setCellColor grid row col color) r c =
            jsIndex (setCellColor grid row col color ! nat r) c"
      using True by (simp add: getCellColor_def isValidPosition_setCellColor)
    ultimately show ?thesis
      using v True by (simp add: getCellColor_def setCellColor_update)
  qed
qed

lemma rectangular_row_length:
  "rectangular grid \<Longrightarrow> i < length grid \<Longrightarrow> length (grid ! i) = length (grid ! 0)"
  by (cases grid) (auto simp: rectangular_def list_all_length nth_Cons split: nat.splits)

lemma rectangular_valid_cell:
  "rectangular grid \<Longrightarrow> isValidPosition grid row col \<Longrightarrow>
     getCellColor grid row col = Some (grid ! nat row ! nat col)"
proof -
  assume rect: "rectangular grid" and v: "isValidPosition grid row col"
  from v have "nat row < length grid" "0 \<le> col" "col < int (length (grid ! 0))"
    by (auto simp: isValidPosition_def Let_def split: if_splits)
  moreover from this rect have "length (grid ! nat row) = length (grid ! 0)"
    by (simp add: rectangular_row_length)
  ultimately show ?thesis
    using v by (simp add: getCellColor_def jsIndex_def)
qed

section \<open>Facts about the flood fill\<close>

lemma floodFillRecursive_stop:
  "filter (\<lambda>(r, c). shouldProcessCell grid r c originalColor) currentLevel = [] \<Longrightarrow>
     floodFillRecursive grid currentLevel originalColor targetColor visited rows cols snapshots
       = snapshots"
  by (simp add: floodFillRecursive.simps [of grid currentLevel])

lemma floodFillRecursive_step:
  assumes "cells = filter (\<lambda>(r, c). shouldProcessCell grid r c originalColor) currentLevel"
    and "cells \<noteq> []"
    and "collectNextLevel rows cols cells visited = (nextLevel, visited')"
  shows "floodFillRecursive grid currentLevel originalColor targetColor visited rows cols snapshots
       = floodFillRecursive (processCellsAtLevel grid cells targetColor) nextLevel originalColor
           targetColor visited' rows cols
           (snapshots @ [processCellsAtLevel grid cells targetColor])"
proof -
  have "currentLevel \<noteq> []" using assms(1,2) by auto
  then show ?thesis
    using assms by (simp add: floodFillRecursive.simps [of grid currentLevel] Let_def cloneGrid_id)
qed

lemma floodFillRecursive_cases_induct [case_names stop step]:
  assumes stop: "\<And>grid currentLevel originalColor targetColor visited rows cols snapshots.
      filter (\<lambda>(r, c). shouldProcessCell grid r c originalColor) currentLevel = [] \<Longrightarrow>
      P grid currentLevel originalColor targetColor visited rows cols snapshots"
    and step: "\<And>grid currentLevel originalColor targetColor visited rows cols snapshots
        cells nextLevel visited'.
      cells = filter (\<lambda>(r, c). shouldProcessCell grid r c originalColor) currentLevel \<Longrightarrow>
      cells \<noteq> [] \<Longrightarrow>
      collectNextLevel rows cols cells visited = (nextLevel, visited') \<Longrightarrow>
      P (processCellsAtLevel grid cells targetColor) nextLevel originalColor targetColor visited'
        rows cols (snapshots @ [processCellsAtLevel grid cells targetColor]) \<Longrightarrow>
      P grid currentLevel originalColor targetColor visited rows cols snapshots"
  shows "P grid currentLevel originalColor targetColor visited rows cols snapshots"
proof (induction grid currentLevel originalColor targetColor visited rows cols snapshots
        rule: floodFillRecursive.induct)
  case (1 grid currentLevel originalColor targetColor visited rows cols snapshots)
  let ?cells = "filter (\<lambda>(r, c). shouldProcessCell grid r c originalColor) currentLevel"
  show ?case
  proof (cases "?cells = []")
    case True
    then show ?thesis by (rule stop)
  next
    case False
    then have ne: "currentLevel \<noteq> []" by auto
    obtain nextLevel visited' where nxt:
      "collectNextLevel rows cols ?cells visited = (nextLevel, visited')"
      by (cases "collectNextLevel rows cols ?cells visited")
    have "P (processCellsAtLevel grid ?cells targetColor) nextLevel originalColor targetColor
            visited' rows cols
            (snapshots @ [cloneGrid (processCellsAtLevel grid ?cells targetColor)])"
      using ne False nxt by (intro "1.IH" [OF _ refl _ refl refl _ refl]) auto
    then show ?thesis
      using step [OF refl False nxt] by (simp add: cloneGrid_id)
  qed
qed

lemma floodFillRecursive_length:
  "length (floodFillRecursive grid currentLevel originalColor targetColor visited rows cols snapshots)
     \<le> length snapshots +
        (if currentLevel = [] then 0 else 1 + card (({0..<rows} \<times> {0..<cols}) - visited))"
proof (induction grid currentLevel originalColor targetColor visited rows cols snapshots
        rule: floodFillRecursive.induct)
  case (1 grid currentLevel originalColor targetColor visited rows cols snapshots)
  let ?cells = "filter (\<lambda>(r, c). shouldProcessCell grid r c originalColor) currentLevel"
  show ?case
  proof (cases "currentLevel = [] \<or> ?cells = []")
    case True
    then show ?thesis
      by (auto simp: floodFillRecursive.simps [of grid currentLevel])
  next
    case False
    obtain nextLevel visited' where step:
      "collectNextLevel rows cols ?cells visited = (nextLevel, visited')"
      by (cases "collectNextLevel rows cols ?cells visited")
    let ?newGrid = "processCellsAtLevel grid ?cells targetColor"
    have unfold: "floodFillRecursive grid currentLevel originalColor targetColor visited rows cols
            snapshots =
          floodFillRecursive ?newGrid nextLevel originalColor targetColor visited' rows cols
            (snapshots @ [cloneGrid ?newGrid])"
      using False step by (simp add: floodFillRecursive.simps [of grid currentLevel] Let_def)
    have IH: "length (floodFillRecursive ?newGrid nextLevel originalColor targetColor visited'
                rows cols (snapshots @ [cloneGrid ?newGrid]))
              \<le> length (snapshots @ [cloneGrid ?newGrid]) +
                (if nextLevel = [] then 0
                 else 1 + card (({0..<rows} \<times> {0..<cols}) - visited'))"
      using False step by (intro "1.IH" [OF _ refl _ refl refl _ refl]) auto
    show ?thesis
    proof (cases "nextLevel = []")
      case True
      with IH unfold False show ?thesis by simp
    next
      case nonempty: False
      have "card (({0..<rows} \<times> {0..<cols}) - visited')
              < card (({0..<rows} \<times> {0..<cols}) - visited)"
        using collectNextLevel_measure [OF step nonempty] .
      with IH unfold False nonempty show ?thesis by simp
    qed
  qed
qed

lemma adjacent_iff:
  "adjacent (r, c) (r', c') \<longleftrightarrow> (r', c') \<in> {(r - 1, c), (r + 1, c), (r, c - 1), (r, c + 1)}"
  by (auto simp: adjacent_def)

lemma getNeighbors_adjacent:
  "(r', c') \<in> set (getNeighbors rows cols r c) \<longleftrightarrow>
     adjacent (r, c) (r', c') \<and> 0 \<le> r' \<and> r' < rows \<and> 0 \<le> c' \<and> c' < cols"
  by (auto simp: getNeighbors_set adjacent_iff)

lemma isValidPosition_dims:
  "getGridDimensions grid = (rows, cols) \<Longrightarrow>
     isValidPosition grid r c \<longleftrightarrow> 0 \<le> r \<and> r < rows \<and> 0 \<le> c \<and> c < cols"
  by (auto simp: getGridDimensions_def isValidPosition_def Let_def split: if_splits)

lemma getCellColor_valid: "getCellColor grid r c = Some x \<Longrightarrow> isValidPosition grid r c"
  by (auto simp: getCellColor_def split: if_splits)

lemma getCellColor_processCellsAtLevel:
  "getCellColor (processCellsAtLevel grid cells targetColor) r c =
     (if (r, c) \<in> set cells \<and> getCellColor grid r c \<noteq> None then Some targetColor
      else getCellColor grid r c)"
  unfolding processCellsAtLevel_def
proof (induction cells arbitrary: grid)
  case Nil
  show ?case by simp
next
  case (Cons cell cells)
  obtain r' c' where cell: "cell = (r', c')" by (cases cell)
  show ?case
    unfolding cell by (auto simp: Cons.IH getCellColor_setCellColor)
qed

lemma map_length_processCellsAtLevel:
  "map length (processCellsAtLevel grid cells targetColor) = map length grid"
  unfolding processCellsAtLevel_def
proof (induction cells arbitrary: grid)
  case Nil
  show ?case by simp
next
  case (Cons cell cells)
  obtain r' c' where cell: "cell = (r', c')" by (cases cell)
  show ?case
    unfolding cell by (simp add: Cons.IH map_length_setCellColor)
qed

lemma collectNextLevel_neighbors:
  "(r, c) \<in> set cells \<Longrightarrow>
     set (getNeighbors rows cols r c) \<subseteq> snd (collectNextLevel rows cols cells visited)"
proof (induction cells arbitrary: visited)
  case Nil
  then show ?case by simp
next
  case (Cons cell cells)
  obtain r' c' where cell: "cell = (r', c')" by (cases cell)
  let ?ns = "getUnvisitedNeighbors rows cols r' c' visited"
  have grow: "visited \<union> set ?ns \<subseteq> snd (collectNextLevel rows cols cells (visited \<union> set ?ns))"
    by (subst collectNextLevel_visited) simp
  show ?case
  proof (cases "(r, c) = (r', c')")
    case True
    have "set (getNeighbors rows cols r c) \<subseteq> visited \<union> set ?ns"
      using True by (auto simp: getUnvisitedNeighbors_set)
    with grow show ?thesis
      unfolding cell collectNextLevel_Cons by auto
  next
    case False
    with Cons.prems cell have "(r, c) \<in> set cells" by auto
    then show ?thesis
      unfolding cell collectNextLevel_Cons using Cons.IH by simp
  qed
qed

lemma collectNextLevel_from_cells:
  "p \<in> set (fst (collectNextLevel rows cols cells visited)) \<Longrightarrow>
     \<exists>(r, c) \<in> set cells. p \<in> set (getNeighbors rows cols r c)"
proof (induction cells arbitrary: visited)
  case Nil
  then show ?case by simp
next
  case (Cons cell cells)
  obtain r' c' where cell: "cell = (r', c')" by (cases cell)
  from Cons.prems show ?case
    unfolding cell collectNextLevel_Cons
    using Cons.IH by (auto simp: getUnvisitedNeighbors_set)
qed

lemma conforming_refl: "conforming g orig target g"
  by (simp add: conforming_def)

lemma filter_shouldProcess_set:
  "(r, c) \<in> set (filter (\<lambda>(r, c). shouldProcessCell grid r c (Some orig)) level) \<longleftrightarrow>
     (r, c) \<in> set level \<and> getCellColor grid r c = Some orig"
  by (auto simp: shouldProcessCell_def)

lemma conforming_step:
  assumes "conforming g orig target grid"
    and "cells = filter (\<lambda>(r, c). shouldProcessCell grid r c (Some orig)) level"
    and "target \<noteq> orig"
  shows "conforming g orig target (processCellsAtLevel grid cells target)"
  unfolding conforming_def
proof (intro conjI allI)
  show "map length (processCellsAtLevel grid cells target) = map length g"
    using assms(1) by (simp add: map_length_processCellsAtLevel conforming_def)
next
  fix r c
  have old: "getCellColor grid r c = getCellColor g r c \<or>
             (getCellColor g r c = Some orig \<and> getCellColor grid r c = Some target)"
    using assms(1) by (simp add: conforming_def)
  show "getCellColor (processCellsAtLevel grid cells target) r c = getCellColor g r c \<or>
        (getCellColor g r c = Some orig \<and>
         getCellColor (processCellsAtLevel grid cells target) r c = Some target)"
  proof (cases "(r, c) \<in> set cells")
    case True
    then have "getCellColor grid r c = Some orig"
      unfolding assms(2) by (simp add: shouldProcessCell_def)
    with old assms(3) True show ?thesis
      by (auto simp: getCellColor_processCellsAtLevel)
  next
    case False
    with old show ?thesis by (simp add: getCellColor_processCellsAtLevel)
  qed
qed

lemma changedCells_step:
  assumes "conforming g orig target grid"
    and "cells = filter (\<lambda>(r, c). shouldProcessCell grid r c (Some orig)) level"
    and "target \<noteq> orig"
    and "cells \<noteq> []"
  shows "changedCells g grid \<subset> changedCells g (processCellsAtLevel grid cells target)"
proof -
  have old: "\<And>r c. getCellColor grid r c = getCellColor g r c \<or>
             (getCellColor g r c = Some orig \<and> getCellColor grid r c = Some target)"
    using assms(1) by (simp add: conforming_def)
  have shape: "map length grid = map length g"
    using assms(1) by (simp add: conforming_def)
  have sub: "changedCells g grid \<subseteq> changedCells g (processCellsAtLevel grid cells target)"
  proof
    fix p
    assume p: "p \<in> changedCells g grid"
    obtain r c where rc: "p = (r, c)" by (cases p)
    from p rc have v: "isValidPosition g r c" and ne: "getCellColor grid r c \<noteq> getCellColor g r c"
      by (auto simp: changedCells_def)
    with old [of r c] have "getCellColor g r c = Some orig" "getCellColor grid r c = Some target"
      by auto
    then have "getCellColor (processCellsAtLevel grid cells target) r c = Some target"
      by (simp add: getCellColor_processCellsAtLevel)
    with \<open>getCellColor g r c = Some orig\<close> assms(3) v show
      "p \<in> changedCells g (processCellsAtLevel grid cells target)"
      by (simp add: changedCells_def rc)
  qed
  obtain q where q: "q \<in> set cells" using assms(4) by (cases cells) auto
  obtain r c where rc: "q = (r, c)" by (cases q)
  from q rc have col: "getCellColor grid r c = Some orig"
    unfolding assms(2) by (simp add: shouldProcessCell_def)
  with old [of r c] assms(3) have g: "getCellColor g r c = Some orig" by auto
  then have v: "isValidPosition g r c" by (rule getCellColor_valid)
  have "(r, c) \<notin> changedCells g grid"
    using col g by (simp add: changedCells_def)
  moreover have "(r, c) \<in> changedCells g (processCellsAtLevel grid cells target)"
    using q rc col g v assms(3) by (simp add: changedCells_def getCellColor_processCellsAtLevel)
  ultimately show ?thesis using sub by blast
qed

lemma floodFillRecursive_snapshots:
  assumes "originalColor = Some orig" and "targetColor \<noteq> orig"
    and "snapshots \<noteq> []" and "last snapshots = grid"
    and "\<forall>s \<in> set snapshots. conforming g orig targetColor s"
    and "growing g snapshots"
  shows "floodFillRecursive grid level originalColor targetColor visited rows cols snapshots \<noteq> [] \<and>
         hd (floodFillRecursive grid level originalColor targetColor visited rows cols snapshots)
           = hd snapshots \<and>
         (\<forall>s \<in> set (floodFillRecursive grid level originalColor targetColor visited rows cols
                      snapshots). conforming g orig targetColor s) \<and>
         growing g (floodFillRecursive grid level originalColor targetColor visited rows cols
                      snapshots)"
  using assms
proof (induction grid level originalColor targetColor visited rows cols snapshots
        rule: floodFillRecursive_cases_induct)
  case (stop grid currentLevel originalColor targetColor visited rows cols snapshots)
  then show ?case by (simp add: floodFillRecursive_stop)
next
  case (step grid currentLevel originalColor targetColor visited rows cols snapshots cells
          nextLevel visited')
  let ?new = "processCellsAtLevel grid cells targetColor"
  have cells: "cells = filter (\<lambda>(r, c). shouldProcessCell grid r c (Some orig)) currentLevel"
    using step.hyps(1) step.prems(1) by simp
  have conf: "conforming g orig targetColor grid"
    using step.prems(3,4,5) by (metis last_in_set)
  have conf': "conforming g orig targetColor ?new"
    using conforming_step [OF conf cells step.prems(2)] .
  have grow: "changedCells g grid \<subset> changedCells g ?new"
    using changedCells_step [OF conf cells step.prems(2) step.hyps(2)] .
  have g': "growing g (snapshots @ [?new])"
    using step.prems(3,4,6) grow by (simp add: growing_def successively_append_iff)
  have res: "floodFillRecursive ?new nextLevel originalColor targetColor visited' rows cols
               (snapshots @ [?new]) \<noteq> [] \<and>
             hd (floodFillRecursive ?new nextLevel originalColor targetColor visited' rows cols
               (snapshots @ [?new])) = hd (snapshots @ [?new]) \<and>
             (\<forall>s \<in> set (floodFillRecursive ?new nextLevel originalColor targetColor visited'
                 rows cols (snapshots @ [?new])). conforming g orig targetColor s) \<and>
             growing g (floodFillRecursive ?new nextLevel originalColor targetColor visited'
                 rows cols (snapshots @ [?new]))"
    using step.prems(1,2,5) conf' g' by (intro step.IH) auto
  show ?case
    using res step.prems(3)
    by (simp add: floodFillRecursive_step [OF step.hyps(1,2,3)])
qed

lemma growing_nth:
  assumes "growing g snaps"
  shows "(\<forall>i j. i < j \<and> j < length snaps \<longrightarrow>
            changedCells g (snaps ! i) \<subseteq> changedCells g (snaps ! j)) \<and>
         (\<forall>i. 0 < i \<and> i < length snaps \<longrightarrow>
            changedCells g (snaps ! (i - 1)) \<subset> changedCells g (snaps ! i))"
proof -
  have tr: "transp (\<lambda>s s'. changedCells g s \<subset> changedCells g s')"
    by (auto simp: transp_def)
  have "sorted_wrt (\<lambda>s s'. changedCells g s \<subset> changedCells g s') snaps"
    using assms successively_conv_sorted_wrt [OF tr] by (simp add: growing_def)
  then have a: "\<forall>i j. i < j \<and> j < length snaps \<longrightarrow>
            changedCells g (snaps ! i) \<subset> changedCells g (snaps ! j)"
    by (simp add: sorted_wrt_iff_nth_less)
  have b: "\<forall>i. 0 < i \<and> i < length snaps \<longrightarrow>
            changedCells g (snaps ! (i - 1)) \<subset> changedCells g (snaps ! i)"
  proof (intro allI impI)
    fix i
    assume "0 < i \<and> i < length snaps"
    then have "i - 1 < i \<and> i < length snaps" by simp
    with a show "changedCells g (snaps ! (i - 1)) \<subset> changedCells g (snaps ! i)" by blast
  qed
  from a b show ?thesis by blast
qed

lemma conforming_changed_target:
  "conforming g orig target s \<Longrightarrow> (r, c) \<in> changedCells g s \<Longrightarrow> getCellColor s r c = Some target"
  by (auto simp: conforming_def changedCells_def)


lemma fillInv_init:
  assumes "getCellColor g row col = Some orig" and "target \<noteq> orig"
  shows "fillInv g row col orig target g [(row, col)] {createPositionKey row col}"
  unfolding fillInv_def
  using assms region.start [of g row col] getCellColor_valid [OF assms(1)]
  by (auto simp: createPositionKey_def)

lemma fillInv_step:
  assumes inv: "fillInv g row col orig target grid level visited"
    and cells: "cells = filter (\<lambda>(r, c). shouldProcessCell grid r c (Some orig)) level"
    and ne: "target \<noteq> orig"
    and start: "getCellColor g row col = Some orig"
    and dims: "getGridDimensions g = (rows, cols)"
    and nxt: "collectNextLevel rows cols cells visited = (nextLevel, visited')"
  shows "fillInv g row col orig target (processCellsAtLevel grid cells target) nextLevel visited'"
proof -
  let ?new = "processCellsAtLevel grid cells target"
  have shape: "map length grid = map length g"
    and old: "\<And>r c. getCellColor grid r c = getCellColor g r c \<or>
            (getCellColor g r c = Some orig \<and> getCellColor grid r c = Some target \<and>
             (r, c) \<in> region g row col)"
    and lev: "\<And>r c. (r, c) \<in> set level \<Longrightarrow> getCellColor g r c = Some orig \<Longrightarrow>
            (r, c) \<in> region g row col"
    and vis: "\<And>r c. (r, c) \<in> visited \<Longrightarrow> getCellColor g r c = Some orig \<Longrightarrow>
            getCellColor grid r c = Some target \<or> (r, c) \<in> set level"
    and nb: "\<And>r c r' c'. getCellColor g r c = Some orig \<Longrightarrow>
            getCellColor grid r c = Some target \<Longrightarrow>
            adjacent (r, c) (r', c') \<Longrightarrow> isValidPosition g r' c' \<Longrightarrow> (r', c') \<in> visited"
    and st: "(row, col) \<in> visited"
    using inv unfolding fillInv_def by blast+
  have incell: "\<And>r c. (r, c) \<in> set cells \<longleftrightarrow>
                  (r, c) \<in> set level \<and> getCellColor grid r c = Some orig"
    unfolding cells by (simp add: shouldProcessCell_def)
  have cell_orig: "\<And>r c. (r, c) \<in> set cells \<Longrightarrow> getCellColor g r c = Some orig"
    using incell old ne by (metis option.inject)
  have cell_region: "\<And>r c. (r, c) \<in> set cells \<Longrightarrow> (r, c) \<in> region g row col"
    using incell cell_orig lev by blast
  have new: "\<And>r c. getCellColor ?new r c =
               (if (r, c) \<in> set cells then Some target else getCellColor grid r c)"
    using incell by (auto simp: getCellColor_processCellsAtLevel)
  have v': "visited' = visited \<union> set nextLevel"
    using collectNextLevel_visited [of rows cols cells visited] nxt by simp
  have c1: "map length ?new = map length g"
    using shape by (simp add: map_length_processCellsAtLevel)
  have c2: "\<forall>r c. getCellColor ?new r c = getCellColor g r c \<or>
            (getCellColor g r c = Some orig \<and> getCellColor ?new r c = Some target \<and>
             (r, c) \<in> region g row col)"
    using old cell_orig cell_region by (auto simp: new)
  have c3: "\<forall>r c. (r, c) \<in> set nextLevel \<and> getCellColor g r c = Some orig \<longrightarrow>
            (r, c) \<in> region g row col"
  proof (intro allI impI)
    fix r c
    assume a: "(r, c) \<in> set nextLevel \<and> getCellColor g r c = Some orig"
    then have "(r, c) \<in> set (fst (collectNextLevel rows cols cells visited))"
      using nxt by simp
    then obtain qr qc where q: "(qr, qc) \<in> set cells"
      and n: "(r, c) \<in> set (getNeighbors rows cols qr qc)"
      using collectNextLevel_from_cells by blast
    from n have adj: "adjacent (qr, qc) (r, c)" by (simp add: getNeighbors_adjacent)
    from a have valid: "isValidPosition g r c" by (auto dest: getCellColor_valid)
    show "(r, c) \<in> region g row col"
      using region.step [OF cell_region [OF q] adj valid] a start by simp
  qed
  have c4: "\<forall>r c. (r, c) \<in> visited' \<and> getCellColor g r c = Some orig \<longrightarrow>
            getCellColor ?new r c = Some target \<or> (r, c) \<in> set nextLevel"
  proof (intro allI impI)
    fix r c
    assume a: "(r, c) \<in> visited' \<and> getCellColor g r c = Some orig"
    show "getCellColor ?new r c = Some target \<or> (r, c) \<in> set nextLevel"
    proof (cases "(r, c) \<in> set nextLevel")
      case True
      then show ?thesis by simp
    next
      case False
      with a v' have "(r, c) \<in> visited" by simp
      with a vis have "getCellColor grid r c = Some target \<or> (r, c) \<in> set level" by blast
      moreover have "getCellColor grid r c = Some target \<or> getCellColor grid r c = Some orig"
        using old [of r c] a by auto
      ultimately show ?thesis
        using incell [of r c] by (auto simp: new)
    qed
  qed
  have c5: "\<forall>r c r' c'. getCellColor g r c = Some orig \<and> getCellColor ?new r c = Some target \<and>
            adjacent (r, c) (r', c') \<and> isValidPosition g r' c' \<longrightarrow> (r', c') \<in> visited'"
  proof (intro allI impI)
    fix r c r' c'
    assume a: "getCellColor g r c = Some orig \<and> getCellColor ?new r c = Some target \<and>
            adjacent (r, c) (r', c') \<and> isValidPosition g r' c'"
    show "(r', c') \<in> visited'"
    proof (cases "(r, c) \<in> set cells")
      case True
      have "(r', c') \<in> set (getNeighbors rows cols r c)"
        using a isValidPosition_dims [OF dims] by (simp add: getNeighbors_adjacent)
      then show ?thesis
        using collectNextLevel_neighbors [OF True, of rows cols visited] nxt by auto
    next
      case False
      with a have "getCellColor grid r c = Some target" by (simp add: new)
      with a nb have "(r', c') \<in> visited" by blast
      with v' show ?thesis by simp
    qed
  qed
  have c6: "(row, col) \<in> visited'"
    using st v' by simp
  show ?thesis
    unfolding fillInv_def using c1 c2 c3 c4 c5 c6 by blast
qed

lemma fillInv_stop:
  assumes inv: "fillInv g row col orig target grid level visited"
    and stop: "filter (\<lambda>(r, c). shouldProcessCell grid r c (Some orig)) level = []"
    and ne: "target \<noteq> orig"
    and start: "getCellColor g row col = Some orig"
  shows "changedCells g grid = region g row col \<and>
         (\<forall>r c. (r, c) \<in> region g row col \<longrightarrow> getCellColor grid r c = Some target) \<and>
         map length grid = map length g"
proof -
  have shape: "map length grid = map length g"
    using inv unfolding fillInv_def by blast
  have old: "\<And>r c. getCellColor grid r c = getCellColor g r c \<or>
            (getCellColor g r c = Some orig \<and> getCellColor grid r c = Some target \<and>
             (r, c) \<in> region g row col)"
    and vis: "\<And>r c. (r, c) \<in> visited \<Longrightarrow> getCellColor g r c = Some orig \<Longrightarrow>
            getCellColor grid r c = Some target \<or> (r, c) \<in> set level"
    and nb: "\<And>r c r' c'. getCellColor g r c = Some orig \<Longrightarrow>
            getCellColor grid r c = Some target \<Longrightarrow>
            adjacent (r, c) (r', c') \<Longrightarrow> isValidPosition g r' c' \<Longrightarrow> (r', c') \<in> visited"
    and st: "(row, col) \<in> visited"
    using inv unfolding fillInv_def by blast+
  have nolevel: "\<And>r c. (r, c) \<in> set level \<Longrightarrow> getCellColor grid r c \<noteq> Some orig"
    using stop by (auto simp: filter_empty_conv shouldProcessCell_def)
  have settled: "\<And>r c. (r, c) \<in> visited \<Longrightarrow> getCellColor g r c = Some orig \<Longrightarrow>
                getCellColor grid r c = Some target"
  proof -
    fix r c
    assume a: "(r, c) \<in> visited" "getCellColor g r c = Some orig"
    from vis [OF a] show "getCellColor grid r c = Some target"
    proof
      assume "(r, c) \<in> set level"
      then have "getCellColor grid r c \<noteq> Some orig" by (rule nolevel)
      with old [of r c] a(2) show ?thesis by auto
    qed simp
  qed
  have painted: "(r, c) \<in> region g row col \<Longrightarrow>
                   getCellColor g r c = Some orig \<and> getCellColor grid r c = Some target" for r c
  proof (induction rule: region.induct)
    case start
    then show ?case using st \<open>getCellColor g row col = Some orig\<close> settled by blast
  next
    case (step r c r' c')
    then have "(r', c') \<in> visited" using nb by blast
    moreover have "getCellColor g r' c' = Some orig"
      using step.hyps(4) \<open>getCellColor g row col = Some orig\<close> by simp
    ultimately show ?case using settled by blast
  qed
  have "changedCells g grid = region g row col"
  proof (intro set_eqI iffI)
    fix p
    assume p: "p \<in> changedCells g grid"
    obtain r c where rc: "p = (r, c)" by (cases p)
    with p old [of r c] show "p \<in> region g row col"
      by (auto simp: changedCells_def)
  next
    fix p
    assume p: "p \<in> region g row col"
    obtain r c where rc: "p = (r, c)" by (cases p)
    with p painted [of r c] ne show "p \<in> changedCells g grid"
      by (auto simp: changedCells_def dest: getCellColor_valid)
  qed
  with painted shape show ?thesis by blast
qed

lemma floodFillRecursive_last:
  assumes "fillInv g row col orig targetColor grid level visited"
    and "originalColor = Some orig" and "targetColor \<noteq> orig"
    and "getCellColor g row col = Some orig"
    and "getGridDimensions g = (rows, cols)"
    and "snapshots \<noteq> []" and "last snapshots = grid"
  shows "changedCells g (last (floodFillRecursive grid level originalColor targetColor visited
            rows cols snapshots)) = region g row col \<and>
         (\<forall>r c. (r, c) \<in> region g row col \<longrightarrow>
            getCellColor (last (floodFillRecursive grid level originalColor targetColor visited
              rows cols snapshots)) r c = Some targetColor) \<and>
         map length (last (floodFillRecursive grid level originalColor targetColor visited
              rows cols snapshots)) = map length g"
  using assms
proof (induction grid level originalColor targetColor visited rows cols snapshots
        rule: floodFillRecursive_cases_induct)
  case (stop grid currentLevel originalColor targetColor visited rows cols snapshots)
  then show ?case
    using fillInv_stop [of g row col orig targetColor grid currentLevel visited]
    by (simp add: floodFillRecursive_stop)
next
  case (step grid currentLevel originalColor targetColor visited rows cols snapshots cells
          nextLevel visited')
  have cells: "cells = filter (\<lambda>(r, c). shouldProcessCell grid r c (Some orig)) currentLevel"
    using step.hyps(1) step.prems(2) by simp
  have inv': "fillInv g row col orig targetColor (processCellsAtLevel grid cells targetColor)
                nextLevel visited'"
    using fillInv_step [OF step.prems(1) cells step.prems(3,4,5) step.hyps(3)] .
  show ?case
    unfolding floodFillRecursive_step [OF step.hyps(1,2,3)]
    using inv' step.prems by (intro step.IH) auto
qed

lemma floodFill_bounded:
  "length (floodFill grid row col targetColor) \<le>
     nat (fst (getGridDimensions grid) * snd (getGridDimensions grid)) + 1"
proof (cases "isValidPosition grid row col \<and> getCellColor grid row col \<noteq> Some targetColor")
  case False
  then have "floodFill grid row col targetColor = [grid]"
    by (auto simp: floodFill_def cloneGrid_id)
  then show ?thesis by simp
next
  case True
  obtain rows cols where dims: "getGridDimensions grid = (rows, cols)"
    by (cases "getGridDimensions grid")
  let ?res = "floodFillRecursive grid [(row, col)] (getCellColor grid row col) targetColor
                {createPositionKey row col} rows cols [grid]"
  have ff: "floodFill grid row col targetColor = ?res"
    using True dims by (simp add: floodFill_def cloneGrid_id)
  have start: "(row, col) \<in> {0..<rows} \<times> {0..<cols}"
    using True isValidPosition_dims [OF dims] by simp
  have fin: "finite ({0..<rows} \<times> {0..<cols})" by simp
  have "card ({0..<rows} \<times> {0..<cols}) = nat (rows * cols)"
    using start by (simp add: card_cartesian_product nat_mult_distrib)
  moreover have "card ({0..<rows} \<times> {0..<cols} - {(row, col)}) =
                   card ({0..<rows} \<times> {0..<cols}) - 1"
    using start fin by (simp add: card_Diff_singleton)
  moreover have "0 < card ({0..<rows} \<times> {0..<cols})"
    using start fin by (metis card_gt_0_iff empty_iff)
  moreover have "length ?res \<le> length [grid] + (1 + card ({0..<rows} \<times> {0..<cols} -
                    {createPositionKey row col}))"
    using floodFillRecursive_length [of grid "[(row, col)]" "getCellColor grid row col"
      targetColor "{createPositionKey row col}" rows cols "[grid]"] by simp
  ultimately show ?thesis
    unfolding ff dims by (simp add: createPositionKey_def)
qed

section \<open>TerritoryGenerator (src/core/grid.js, first part)\<close>

text \<open>
  JavaScript numbers are modelled as reals where the source computes with fractions
  (\<open>Math.random\<close>, \<open>Math.sqrt\<close>, the noise) and as integers where it counts rows and
  columns. A generator cell is \<open>null\<close> until it is filled; reading outside an array gives
  \<open>undefined\<close>.
\<close>

datatype jsval = Null | Undefined | Str string

definition CYBERPUNK_PALETTE :: "string list" where
  "CYBERPUNK_PALETTE =
     [''#FF006E'', ''#FB5607'', ''#FFBE0B'', ''#8338EC'', ''#3A86FF'',
      ''#06FFA5'', ''#00D9FF'', ''#FF10F0'', ''#00F5FF'']"

text \<open>
  The ambient random source: \<open>rnd k\<close> is the value of the \<open>k\<close>-th call of
  \<open>Math.random\<close>. Every function that draws takes the number of calls made so far and
  returns the new count. \<open>Math.random\<close> promises a value in \<open>[0, 1)\<close>.
\<close>

type_synonym rng = "nat \<Rightarrow> real"

definition unitRange :: "rng \<Rightarrow> bool" where
  "unitRange rnd \<longleftrightarrow> (\<forall>k. 0 \<le> rnd k \<and> rnd k < 1)"

definition simplex :: "real \<Rightarrow> real \<Rightarrow> real" where
  "simplex x y = sin (x * 12.9898 + y * 78.233) * sin (x * 39.346 + y * 14.234) * 43758.5453"

text \<open>The remainder operator \<open>%\<close> of JavaScript truncates the quotient towards zero.\<close>

definition jsRem :: "real \<Rightarrow> real \<Rightarrow> real" where
  "jsRem a b = a - b * of_int (if a / b < 0 then \<lceil>a / b\<rceil> else \<lfloor>a / b\<rfloor>)"

definition perlinNoise :: "real \<Rightarrow> real \<Rightarrow> real \<Rightarrow> real" where
  "perlinNoise x y scale =
     (let xi = of_int \<lfloor>x / scale\<rfloor>;
          yi = of_int \<lfloor>y / scale\<rfloor>;
          n00 = simplex xi yi;
          n10 = simplex (xi + 1) yi;
          n01 = simplex xi (yi + 1);
          n11 = simplex (xi + 1) (yi + 1);
          u = jsRem x scale / scale;
          v = jsRem y scale / scale;
          uu = u * u * (3 - 2 * u);
          vv = v * v * (3 - 2 * v);
          n0 = n00 * (1 - uu) + n10 * uu;
          n1 = n01 * (1 - uu) + n11 * uu
      in jsRem (n0 * (1 - vv) + n1 * vv) 1)"

definition randomCyberpunkColor :: "rng \<Rightarrow> nat \<Rightarrow> jsval \<times> nat" where
  "randomCyberpunkColor rnd k =
     (case jsIndex CYBERPUNK_PALETTE \<lfloor>rnd k * real (length CYBERPUNK_PALETTE)\<rfloor> of
        None \<Rightarrow> Undefined
      | Some color \<Rightarrow> Str color,
      k + 1)"

definition calculateTerritoryCount :: "int \<Rightarrow> int \<Rightarrow> real \<Rightarrow> int" where
  "calculateTerritoryCount rows cols organicness =
     (let baseNumTerritories = rows * cols;
          minTerritories = max 2 \<lfloor>sqrt (real_of_int (rows * cols)) / 2\<rfloor>
      in \<lfloor>real_of_int minTerritories +
           (real_of_int baseNumTerritories - real_of_int minTerritories)
             * ((100 - organicness) / 100)\<rfloor>)"

record territory =
  color :: jsval
  cells :: "pos list"
  frontier :: "pos list"

text \<open>
  \<open>Array.from({ length: n }, f)\<close> calls \<open>f\<close> for the indices \<open>0, \<dots>, n - 1\<close> in order; each
  call draws the row, the column and the colour.
\<close>

fun createTerritorySeeds :: "nat \<Rightarrow> int \<Rightarrow> int \<Rightarrow> rng \<Rightarrow> nat \<Rightarrow> territory list \<times> nat" where
  "createTerritorySeeds 0 rows cols rnd k = ([], k)"
| "createTerritorySeeds (Suc n) rows cols rnd k =
     (let startRow = \<lfloor>rnd k * real_of_int rows\<rfloor>;
          startCol = \<lfloor>rnd (k + 1) * real_of_int cols\<rfloor>;
          (c, k2) = randomCyberpunkColor rnd (k + 2);
          (rest, k3) = createTerritorySeeds n rows cols rnd k2
      in (\<lparr>color = c, cells = [(startRow, startCol)], frontier = [(startRow, startCol)]\<rparr> # rest,
          k3))"

definition calculateGrowthProbability :: "int \<Rightarrow> int \<Rightarrow> real \<Rightarrow> real \<Rightarrow> real" where
  "calculateGrowthProbability row col seed organicness =
     (let noise = \<bar>perlinNoise (real_of_int row + seed) (real_of_int col + seed) 2\<bar>;
          baseGrowth = 0.3 + noise * 0.4
      in baseGrowth + (organicness / 100) * 0.4)"

text \<open>
  \<open>grid[r][c]\<close> as the generator reads it. The source reads only after its bounds check
  against \<open>rows\<close> and \<open>cols\<close>, which are the dimensions of the grid, so the row exists; a
  column outside the row reads \<open>undefined\<close>.
\<close>

definition cellAt :: "jsval grid \<Rightarrow> int \<Rightarrow> int \<Rightarrow> jsval" where
  "cellAt grid r c =
     (case jsIndex grid r of
        None \<Rightarrow> Undefined
      | Some gridRow \<Rightarrow> (case jsIndex gridRow c of None \<Rightarrow> Undefined | Some v \<Rightarrow> v))"

text \<open>
  \<open>grid[r][c] = v\<close> as the generator writes it: at a position inside the grid it replaces
  the cell. The generator writes at seed positions, drawn inside the grid, and at neighbours
  that passed the bounds check; the model leaves the grid as it is anywhere else.
\<close>

definition assignCell :: "jsval grid \<Rightarrow> int \<Rightarrow> int \<Rightarrow> jsval \<Rightarrow> jsval grid" where
  "assignCell grid r c v =
     (if 0 \<le> r \<and> r < int (length grid) \<and> 0 \<le> c \<and> c < int (length (grid ! nat r))
      then grid[nat r := (grid ! nat r)[nat c := v]]
      else grid)"

definition getUnfilledNeighbors :: "jsval grid \<Rightarrow> int \<Rightarrow> int \<Rightarrow> int \<Rightarrow> int \<Rightarrow> pos list" where
  "getUnfilledNeighbors grid rows cols r c =
     (let neighbors = [(r - 1, c), (r + 1, c), (r, c - 1), (r, c + 1)]
      in filter (\<lambda>(nr, nc). nr \<ge> 0 \<and> nr < rows \<and> nc \<ge> 0 \<and> nc < cols \<and> cellAt grid nr nc = Null)
           neighbors)"

text \<open>The filter of \<open>growFromCell\<close>: one draw for each unfilled neighbour, in order.\<close>

fun growthFilter :: "pos list \<Rightarrow> real \<Rightarrow> real \<Rightarrow> rng \<Rightarrow> nat \<Rightarrow> pos list \<times> nat" where
  "growthFilter [] seed organicness rnd k = ([], k)"
| "growthFilter ((nr, nc) # neighbors) seed organicness rnd k =
     (let growthChance = calculateGrowthProbability nr nc seed organicness;
          keep = (rnd k < growthChance);
          (rest, k') = growthFilter neighbors seed organicness rnd (k + 1)
      in (if keep then (nr, nc) # rest else rest, k'))"

definition growFromCell ::
  "jsval grid \<Rightarrow> pos \<Rightarrow> int \<Rightarrow> int \<Rightarrow> real \<Rightarrow> real \<Rightarrow> rng \<Rightarrow> nat \<Rightarrow> pos list \<times> nat" where
  "growFromCell grid cellStr rows cols seed organicness rnd k =
     (let (r, c) = cellStr;
          neighbors = getUnfilledNeighbors grid rows cols r c
      in growthFilter neighbors seed organicness rnd k)"

text \<open>\<open>Set.add\<close> keeps the insertion order and ignores a key that is already there.\<close>

definition setAdd :: "pos list \<Rightarrow> pos \<Rightarrow> pos list" where
  "setAdd keys key = (if key \<in> set keys then keys else keys @ [key])"

text \<open>The \<open>forEach\<close> over the cells grown from one frontier cell.\<close>

fun applyGrown ::
  "pos list \<Rightarrow> jsval \<Rightarrow> jsval grid \<Rightarrow> pos list \<Rightarrow> pos list \<Rightarrow> jsval grid \<times> pos list \<times> pos list"
  where
  "applyGrown [] col newGrid newCells newFrontier = (newGrid, newCells, newFrontier)"
| "applyGrown ((nr, nc) # grown) col newGrid newCells newFrontier =
     applyGrown grown col (assignCell newGrid nr nc col) (newCells @ [(nr, nc)])
       (setAdd newFrontier (nr, nc))"

text \<open>The \<open>for\<close> loop over the frontier of one territory.\<close>

fun growFrontier ::
  "pos list \<Rightarrow> jsval \<Rightarrow> int \<Rightarrow> int \<Rightarrow> real \<Rightarrow> real \<Rightarrow> rng \<Rightarrow>
     jsval grid \<Rightarrow> pos list \<Rightarrow> pos list \<Rightarrow> nat \<Rightarrow> jsval grid \<times> pos list \<times> pos list \<times> nat"
  where
  "growFrontier [] col rows cols seed organicness rnd newGrid newCells newFrontier k =
     (newGrid, newCells, newFrontier, k)"
| "growFrontier (cellStr # rest) col rows cols seed organicness rnd newGrid newCells newFrontier k =
     (let (grownCells, k1) = growFromCell newGrid cellStr rows cols seed organicness rnd k;
          (newGrid1, newCells1, newFrontier1) =
             applyGrown grownCells col newGrid newCells newFrontier
      in growFrontier rest col rows cols seed organicness rnd newGrid1 newCells1 newFrontier1 k1)"

text \<open>The \<open>map\<close> over the territories; \<open>newGrid\<close> and \<open>activeCount\<close> are shared by all.\<close>

fun growTerritories ::
  "territory list \<Rightarrow> int \<Rightarrow> int \<Rightarrow> real \<Rightarrow> real \<Rightarrow> rng \<Rightarrow> jsval grid \<Rightarrow> nat \<Rightarrow> nat \<Rightarrow>
     jsval grid \<times> territory list \<times> nat \<times> nat"
  where
  "growTerritories [] rows cols seed organicness rnd newGrid activeCount k =
     (newGrid, [], activeCount, k)"
| "growTerritories (t # ts) rows cols seed organicness rnd newGrid activeCount k =
     (let (newGrid1, newCells, newFrontier, k1) =
             growFrontier (frontier t) (color t) rows cols seed organicness rnd newGrid (cells t) [] k;
          activeCount1 = (if length newFrontier > 0 then activeCount + 1 else activeCount);
          t' = t\<lparr>cells := newCells, frontier := newFrontier\<rparr>;
          (newGrid2, ts', activeCount2, k2) =
             growTerritories ts rows cols seed organicness rnd newGrid1 activeCount1 k1
      in (newGrid2, t' # ts', activeCount2, k2))"

definition growTerritoriesIteration ::
  "jsval grid \<Rightarrow> territory list \<Rightarrow> int \<Rightarrow> int \<Rightarrow> real \<Rightarrow> real \<Rightarrow> rng \<Rightarrow> nat \<Rightarrow>
     jsval grid \<times> territory list \<times> nat \<times> nat"
  where
  "growTerritoriesIteration grid territories rows cols seed organicness rnd k =
     (let newGrid = map (\<lambda>row. row) grid;
          activeCount = 0
      in growTerritories territories rows cols seed organicness rnd newGrid activeCount k)"

text \<open>
  The two nested loops of \<open>findClosestColoredNeighbor\<close> visit the offsets in this order,
  and \<open>closerNeighbor\<close> is their body, acting on \<open>closest\<close> and \<open>minDist\<close>;
  \<open>minDist\<close> starts at \<open>Infinity\<close>, which is \<open>None\<close>.
\<close>

definition neighborhoodOffsets :: "(int \<times> int) list" where
  "neighborhoodOffsets = concat (map (\<lambda>dr. map (\<lambda>dc. (dr, dc)) [-2..2]) [-2..2])"

definition closerNeighbor ::
  "jsval grid \<Rightarrow> int \<Rightarrow> int \<Rightarrow> int \<Rightarrow> int \<Rightarrow> int \<times> int \<Rightarrow> jsval \<times> int option \<Rightarrow> jsval \<times> int option"
  where
  "closerNeighbor grid row col rows cols offset state =
     (let (dr, dc) = offset;
          (closest, minDist) = state;
          nr = row + dr;
          nc = col + dc
      in if nr \<ge> 0 \<and> nr < rows \<and> nc \<ge> 0 \<and> nc < cols \<and> cellAt grid nr nc \<noteq> Null
         then (let dist = \<bar>dr\<bar> + \<bar>dc\<bar>
               in if (case minDist of None \<Rightarrow> True | Some m \<Rightarrow> dist < m)
                  then (cellAt grid nr nc, Some dist)
                  else (closest, minDist))
         else (closest, minDist))"

definition findClosestColoredNeighbor :: "jsval grid \<Rightarrow> int \<Rightarrow> int \<Rightarrow> int \<Rightarrow> int \<Rightarrow> jsval" where
  "findClosestColoredNeighbor grid row col rows cols =
     fst (fold (closerNeighbor grid row col rows cols) neighborhoodOffsets (Null, None))"

text \<open>The values JavaScript treats as false among those a cell can hold.\<close>

definition falsy :: "jsval \<Rightarrow> bool" where
  "falsy v = (v = Null \<or> v = Undefined \<or> v = Str [])"

fun fillRow ::
  "jsval grid \<Rightarrow> int \<Rightarrow> int \<Rightarrow> int \<Rightarrow> int \<Rightarrow> jsval list \<Rightarrow> rng \<Rightarrow> nat \<Rightarrow> jsval list \<times> nat" where
  "fillRow grid rows cols r c [] rnd k = ([], k)"
| "fillRow grid rows cols r c (cell # rest) rnd k =
     (let (v, k1) =
            (if cell \<noteq> Null then (cell, k)
             else (let closest = findClosestColoredNeighbor grid r c rows cols
                   in if falsy closest then randomCyberpunkColor rnd k else (closest, k)));
          (vs, k2) = fillRow grid rows cols r (c + 1) rest rnd k1
      in (v # vs, k2))"

fun fillRows ::
  "jsval grid \<Rightarrow> int \<Rightarrow> int \<Rightarrow> int \<Rightarrow> jsval grid \<Rightarrow> rng \<Rightarrow> nat \<Rightarrow> jsval grid \<times> nat" where
  "fillRows grid rows cols r [] rnd k = ([], k)"
| "fillRows grid rows cols r (row # rest) rnd k =
     (let (row', k1) = fillRow grid rows cols r 0 row rnd k;
          (rows', k2) = fillRows grid rows cols (r + 1) rest rnd k1
      in (row' # rows', k2))"

definition fillRemainingCells :: "jsval grid \<Rightarrow> int \<Rightarrow> int \<Rightarrow> rng \<Rightarrow> nat \<Rightarrow> jsval grid \<times> nat" where
  "fillRemainingCells grid rows cols rnd k = fillRows grid rows cols 0 grid rnd k"

text \<open>A row, and a grid, of fresh random colours, drawn cell by cell in row-major order.\<close>

fun randomRow :: "nat \<Rightarrow> rng \<Rightarrow> nat \<Rightarrow> jsval list \<times> nat" where
  "randomRow 0 rnd k = ([], k)"
| "randomRow (Suc n) rnd k =
     (let (v, k1) = randomCyberpunkColor rnd k;
          (vs, k2) = randomRow n rnd k1
      in (v # vs, k2))"

fun randomRows :: "nat \<Rightarrow> nat \<Rightarrow> rng \<Rightarrow> nat \<Rightarrow> jsval grid \<times> nat" where
  "randomRows 0 n rnd k = ([], k)"
| "randomRows (Suc m) n rnd k =
     (let (row, k1) = randomRow n rnd k;
          (rest, k2) = randomRows m n rnd k1
      in (row # rest, k2))"

text \<open>The \<open>forEach\<close> that writes each territory's seed colour into the grid.\<close>

definition placeSeeds :: "jsval grid \<Rightarrow> territory list \<Rightarrow> jsval grid" where
  "placeSeeds grid territories =
     fold (\<lambda>t g. let (startRow, startCol) = hd (cells t) in assignCell g startRow startCol (color t))
       territories grid"

text \<open>
  The growth loop, counted down: \<open>n\<close> is \<open>maxIterations - iteration\<close>.
\<close>

fun growLoop ::
  "nat \<Rightarrow> jsval grid \<Rightarrow> territory list \<Rightarrow> nat \<Rightarrow> int \<Rightarrow> int \<Rightarrow> real \<Rightarrow> real \<Rightarrow> rng \<Rightarrow> nat \<Rightarrow>
     jsval grid \<times> nat"
  where
  "growLoop 0 grid territories activeCount rows cols seed organicness rnd k = (grid, k)"
| "growLoop (Suc n) grid territories activeCount rows cols seed organicness rnd k =
     (if activeCount > 0
      then (let (grid', territories', activeCount', k') =
                  growTerritoriesIteration grid territories rows cols seed organicness rnd k
            in growLoop n grid' territories' activeCount' rows cols seed organicness rnd k')
      else (grid, k))"

definition generateGridWithZones :: "int \<Rightarrow> int \<Rightarrow> real \<Rightarrow> rng \<Rightarrow> jsval grid" where
  "generateGridWithZones rows cols organicness rnd =
     (if rows \<le> 0 \<or> cols \<le> 0 then []
      else
        (let seed = rnd 0 * 10000;
             grid = replicate (nat rows) (replicate (nat cols) Null)
         in if organicness = 0 then fst (randomRows (nat rows) (nat cols) rnd 1)
            else
              (let numTerritories = calculateTerritoryCount rows cols organicness;
                   (territories, k) = createTerritorySeeds (nat numTerritories) rows cols rnd 1;
                   grid1 = placeSeeds grid territories;
                   maxIterations = rows * cols;
                   activeCount = length territories;
                   (grid2, k') = growLoop (nat maxIterations) grid1 territories activeCount
                                   rows cols seed organicness rnd k
               in fst (fillRemainingCells grid2 rows cols rnd k'))))"

definition generateGrid :: "int \<Rightarrow> int \<Rightarrow> rng \<Rightarrow> jsval grid" where
  "generateGrid rows cols rnd =
     (if rows \<le> 0 \<or> cols \<le> 0 then []
      else fst (randomRows (nat rows) (nat cols) rnd 0))"

text \<open>
  Invariants of the generator: a cell that holds one of the palette colours, and a grid of
  the requested shape whose cells are empty or hold a palette colour.
\<close>

definition paletteColor :: "jsval \<Rightarrow> bool" where
  "paletteColor v \<longleftrightarrow> v \<in> Str ` set CYBERPUNK_PALETTE"

definition wellFormed :: "int \<Rightarrow> int \<Rightarrow> jsval grid \<Rightarrow> bool" where
  "wellFormed rows cols grid \<longleftrightarrow>
     length grid = nat rows \<and>
     (\<forall>gridRow \<in> set grid. length gridRow = nat cols \<and>
        (\<forall>v \<in> set gridRow. v = Null \<or> paletteColor v))"



section \<open>Facts about the generator\<close>

lemma randomCyberpunkColor_palette:
  assumes "unitRange rnd"
  shows "paletteColor (fst (randomCyberpunkColor rnd k))"
proof -
  have r: "0 \<le> rnd k" "rnd k < 1" using assms by (auto simp: unitRange_def)
  have len: "length CYBERPUNK_PALETTE = 9" by (simp add: CYBERPUNK_PALETTE_def)
  define i where "i = \<lfloor>rnd k * real (length CYBERPUNK_PALETTE)\<rfloor>"
  have lo: "0 \<le> i" using r by (simp add: i_def)
  have "rnd k * 9 < 9" using r by simp
  then have hi: "i < 9" by (simp add: i_def len floor_less_iff)
  have "nat i < length CYBERPUNK_PALETTE" using lo hi len by linarith
  then have "CYBERPUNK_PALETTE ! nat i \<in> set CYBERPUNK_PALETTE"
    by (rule nth_mem)
  moreover have "jsIndex CYBERPUNK_PALETTE i = Some (CYBERPUNK_PALETTE ! nat i)"
    using lo hi len by (simp add: jsIndex_def)
  ultimately show ?thesis
    unfolding randomCyberpunkColor_def i_def [symmetric] by (simp add: paletteColor_def)
qed

lemma randomCyberpunkColor_count: "snd (randomCyberpunkColor rnd k) = k + 1"
  by (simp add: randomCyberpunkColor_def)

lemma randomRow_length: "length (fst (randomRow n rnd k)) = n"
  by (induction n arbitrary: k) (simp_all add: Let_def case_prod_unfold)

lemma randomRow_palette:
  "unitRange rnd \<Longrightarrow> v \<in> set (fst (randomRow n rnd k)) \<Longrightarrow> paletteColor v"
proof (induction n arbitrary: k)
  case 0
  then show ?case by simp
next
  case (Suc n)
  obtain c k1 where c: "randomCyberpunkColor rnd k = (c, k1)"
    by (cases "randomCyberpunkColor rnd k")
  have "paletteColor c"
    using randomCyberpunkColor_palette [OF Suc.prems(1), of k] c by simp
  with Suc c show ?case
    by (auto simp: Let_def case_prod_unfold)
qed

lemma randomRows_length: "length (fst (randomRows m n rnd k)) = m"
  by (induction m arbitrary: k) (simp_all add: Let_def case_prod_unfold)

lemma randomRows_rows:
  "gridRow \<in> set (fst (randomRows m n rnd k)) \<Longrightarrow>
     length gridRow = n \<and> (unitRange rnd \<longrightarrow> (\<forall>v \<in> set gridRow. paletteColor v))"
proof (induction m arbitrary: k)
  case 0
  then show ?case by simp
next
  case (Suc m)
  obtain row k1 where row: "randomRow n rnd k = (row, k1)"
    by (cases "randomRow n rnd k")
  have "length row = n" "unitRange rnd \<longrightarrow> (\<forall>v \<in> set row. paletteColor v)"
    using randomRow_length [of n rnd k] randomRow_palette [of rnd _ n k] row by auto
  with Suc row show ?case
    by (auto simp: Let_def case_prod_unfold)
qed

lemma createTerritorySeeds_palette:
  "unitRange rnd \<Longrightarrow> t \<in> set (fst (createTerritorySeeds n rows cols rnd k)) \<Longrightarrow>
     paletteColor (color t)"
proof (induction n arbitrary: k)
  case 0
  then show ?case by simp
next
  case (Suc n)
  obtain c k2 where c: "randomCyberpunkColor rnd (k + 2) = (c, k2)"
    by (cases "randomCyberpunkColor rnd (k + 2)")
  have "paletteColor c"
    using randomCyberpunkColor_palette [OF Suc.prems(1), of "k + 2"] c by simp
  with Suc c show ?case
    by (auto simp: Let_def case_prod_unfold)
qed

lemma createTerritorySeeds_in_grid:
  "unitRange rnd \<Longrightarrow> 0 < rows \<Longrightarrow> 0 < cols \<Longrightarrow>
   t \<in> set (fst (createTerritorySeeds n rows cols rnd k)) \<Longrightarrow>
     (\<exists>r c. cells t = [(r, c)] \<and> 0 \<le> r \<and> r < rows \<and> 0 \<le> c \<and> c < cols)"
proof (induction n arbitrary: k)
  case 0
  then show ?case by simp
next
  case (Suc n)
  have bound: "0 \<le> \<lfloor>x * real_of_int m\<rfloor> \<and> \<lfloor>x * real_of_int m\<rfloor> < m"
    if "0 \<le> x" "x < 1" "0 < m" for x :: real and m :: int
  proof -
    have "0 \<le> x * real_of_int m" using that by simp
    moreover have "x * real_of_int m < real_of_int m" using that by simp
    ultimately show ?thesis by (simp add: floor_less_iff)
  qed
  have r: "0 \<le> rnd k" "rnd k < 1" "0 \<le> rnd (k + 1)" "rnd (k + 1) < 1"
    using Suc.prems(1) by (auto simp: unitRange_def)
  from Suc bound [OF r(1,2) Suc.prems(2)] bound [OF r(3,4) Suc.prems(3)] show ?case
    by (auto simp: Let_def case_prod_unfold)
qed

lemma assignCell_wellFormed:
  assumes "wellFormed rows cols grid" and "paletteColor v"
  shows "wellFormed rows cols (assignCell grid r c v)"
proof (cases "0 \<le> r \<and> r < int (length grid) \<and> 0 \<le> c \<and> c < int (length (grid ! nat r))")
  case False
  then have "assignCell grid r c v = grid"
    unfolding assignCell_def by (rule if_not_P)
  with assms(1) show ?thesis by simp
next
  case True
  let ?row = "(grid ! nat r)[nat c := v]"
  have "nat r < length grid" using True by linarith
  then have mem: "grid ! nat r \<in> set grid" by (rule nth_mem)
  have row: "length ?row = nat cols \<and> (\<forall>x \<in> set ?row. x = Null \<or> paletteColor x)"
    using assms mem set_update_subset_insert [of "grid ! nat r" "nat c" v]
    by (auto simp: wellFormed_def)
  have "set (grid[nat r := ?row]) \<subseteq> insert ?row (set grid)"
    by (rule set_update_subset_insert)
  with row assms(1) have "wellFormed rows cols (grid[nat r := ?row])"
    unfolding wellFormed_def by (metis insertE length_list_update subsetD)
  moreover have "assignCell grid r c v = grid[nat r := ?row]"
    unfolding assignCell_def using True by (rule if_P)
  ultimately show ?thesis by simp
qed

lemma placeSeeds_wellFormed:
  "wellFormed rows cols grid \<Longrightarrow> \<forall>t \<in> set territories. paletteColor (color t) \<Longrightarrow>
     wellFormed rows cols (placeSeeds grid territories)"
  unfolding placeSeeds_def
  by (induction territories arbitrary: grid)
     (auto simp: assignCell_wellFormed split: prod.splits)

lemma applyGrown_wellFormed:
  "wellFormed rows cols newGrid \<Longrightarrow> paletteColor col \<Longrightarrow>
     wellFormed rows cols (fst (applyGrown grown col newGrid newCells newFrontier))"
  by (induction grown col newGrid newCells newFrontier rule: applyGrown.induct)
     (auto simp: assignCell_wellFormed)

lemma growFrontier_wellFormed:
  "wellFormed rows cols newGrid \<Longrightarrow> paletteColor col \<Longrightarrow>
     wellFormed rows cols
       (fst (growFrontier front col rows cols seed organicness rnd newGrid newCells newFrontier k))"
proof (induction front arbitrary: newGrid newCells newFrontier k)
  case Nil
  then show ?case by simp
next
  case (Cons cellStr rest)
  obtain grownCells k1 where g:
    "growFromCell newGrid cellStr rows cols seed organicness rnd k = (grownCells, k1)"
    by (cases "growFromCell newGrid cellStr rows cols seed organicness rnd k")
  obtain newGrid1 newCells1 newFrontier1 where a:
    "applyGrown grownCells col newGrid newCells newFrontier = (newGrid1, newCells1, newFrontier1)"
    by (cases "applyGrown grownCells col newGrid newCells newFrontier")
  have "wellFormed rows cols newGrid1"
    using applyGrown_wellFormed [OF Cons.prems, of grownCells newCells newFrontier] a by simp
  then show ?case
    using Cons.IH [OF _ Cons.prems(2)] g a by simp
qed

lemma growTerritories_wellFormed:
  "wellFormed rows cols newGrid \<Longrightarrow> \<forall>t \<in> set ts. paletteColor (color t) \<Longrightarrow>
   growTerritories ts rows cols seed organicness rnd newGrid activeCount k =
     (newGrid', ts', activeCount', k') \<Longrightarrow>
     wellFormed rows cols newGrid' \<and> (\<forall>t \<in> set ts'. paletteColor (color t))"
proof (induction ts arbitrary: newGrid activeCount k newGrid' ts' activeCount' k')
  case Nil
  then show ?case by simp
next
  case (Cons t ts)
  obtain newGrid1 newCells newFrontier k1 where f:
    "growFrontier (frontier t) (color t) rows cols seed organicness rnd newGrid (cells t) [] k =
       (newGrid1, newCells, newFrontier, k1)"
    by (cases "growFrontier (frontier t) (color t) rows cols seed organicness rnd newGrid
                 (cells t) [] k") auto
  let ?ac = "if length newFrontier > 0 then activeCount + 1 else activeCount"
  obtain newGrid2 ts2 activeCount2 k2 where r:
    "growTerritories ts rows cols seed organicness rnd newGrid1 ?ac k1 =
       (newGrid2, ts2, activeCount2, k2)"
    by (cases "growTerritories ts rows cols seed organicness rnd newGrid1 ?ac k1") auto
  have wf1: "wellFormed rows cols newGrid1"
    using growFrontier_wellFormed [of rows cols newGrid "color t" "frontier t" seed organicness
        rnd "cells t" "[]" k] Cons.prems(1,2) f by simp
  have rest: "wellFormed rows cols newGrid2 \<and> (\<forall>t \<in> set ts2. paletteColor (color t))"
    using Cons.IH [OF wf1 _ r] Cons.prems(2) by simp
  have "newGrid' = newGrid2" "ts' = t\<lparr>cells := newCells, frontier := newFrontier\<rparr> # ts2"
    using Cons.prems(3) f r by (auto simp: Let_def)
  with rest Cons.prems(2) show ?case by simp
qed

lemma growLoop_wellFormed:
  "wellFormed rows cols grid \<Longrightarrow> \<forall>t \<in> set territories. paletteColor (color t) \<Longrightarrow>
     wellFormed rows cols
       (fst (growLoop n grid territories activeCount rows cols seed organicness rnd k))"
proof (induction n arbitrary: grid territories activeCount k)
  case 0
  then show ?case by simp
next
  case (Suc n)
  show ?case
  proof (cases "activeCount > 0")
    case False
    with Suc.prems show ?thesis by simp
  next
    case True
    obtain grid' territories' activeCount' k' where it:
      "growTerritoriesIteration grid territories rows cols seed organicness rnd k =
         (grid', territories', activeCount', k')"
      by (cases "growTerritoriesIteration grid territories rows cols seed organicness rnd k") auto
    then have "growTerritories territories rows cols seed organicness rnd grid 0 k =
         (grid', territories', activeCount', k')"
      by (simp add: growTerritoriesIteration_def)
    from growTerritories_wellFormed [OF Suc.prems this]
    have "wellFormed rows cols grid'" "\<forall>t \<in> set territories'. paletteColor (color t)"
      by simp_all
    from Suc.IH [OF this] True it show ?thesis by simp
  qed
qed

lemma cellAt_cases:
  assumes "wellFormed rows cols grid"
  shows "cellAt grid r c = Null \<or> cellAt grid r c = Undefined \<or> paletteColor (cellAt grid r c)"
proof (cases "0 \<le> r \<and> r < int (length grid) \<and> 0 \<le> c \<and> c < int (length (grid ! nat r))")
  case False
  then show ?thesis
    by (auto simp: cellAt_def jsIndex_def)
next
  case True
  then have "nat r < length grid" "nat c < length (grid ! nat r)" by linarith+
  then have "grid ! nat r \<in> set grid" "grid ! nat r ! nat c \<in> set (grid ! nat r)"
    by (simp_all only: nth_mem)
  with assms have "grid ! nat r ! nat c = Null \<or> paletteColor (grid ! nat r ! nat c)"
    by (auto simp: wellFormed_def)
  with True show ?thesis
    by (auto simp: cellAt_def jsIndex_def)
qed

lemma closerNeighbor_cases:
  assumes "wellFormed rows cols grid"
    and "closest = Null \<or> closest = Undefined \<or> paletteColor closest"
  shows "fst (closerNeighbor grid row col rows cols offset (closest, minDist)) = Null \<or>
         fst (closerNeighbor grid row col rows cols offset (closest, minDist)) = Undefined \<or>
         paletteColor (fst (closerNeighbor grid row col rows cols offset (closest, minDist)))"
  using assms(2) cellAt_cases [OF assms(1), of "row + fst offset" "col + snd offset"]
  by (auto simp: closerNeighbor_def Let_def case_prod_unfold)

lemma fold_closerNeighbor_cases:
  assumes "wellFormed rows cols grid"
  shows "fst state = Null \<or> fst state = Undefined \<or> paletteColor (fst state) \<Longrightarrow>
     fst (fold (closerNeighbor grid row col rows cols) offsets state) = Null \<or>
     fst (fold (closerNeighbor grid row col rows cols) offsets state) = Undefined \<or>
     paletteColor (fst (fold (closerNeighbor grid row col rows cols) offsets state))"
proof (induction offsets arbitrary: state)
  case Nil
  then show ?case by simp
next
  case (Cons offset offsets)
  obtain closest minDist where st: "state = (closest, minDist)" by (cases state)
  have "fst (closerNeighbor grid row col rows cols offset state) = Null \<or>
        fst (closerNeighbor grid row col rows cols offset state) = Undefined \<or>
        paletteColor (fst (closerNeighbor grid row col rows cols offset state))"
    unfolding st using closerNeighbor_cases [OF assms] Cons.prems st by simp
  from Cons.IH [OF this] show ?case by simp
qed

lemma findClosestColoredNeighbor_cases:
  assumes "wellFormed rows cols grid"
  shows "falsy (findClosestColoredNeighbor grid row col rows cols) \<or>
         paletteColor (findClosestColoredNeighbor grid row col rows cols)"
  using fold_closerNeighbor_cases [OF assms, of "(Null, None)" row col neighborhoodOffsets]
  by (auto simp: findClosestColoredNeighbor_def falsy_def)

lemma fillRow_filled:
  assumes "wellFormed rows cols grid" and "unitRange rnd"
  shows "\<forall>v \<in> set gridRow. v = Null \<or> paletteColor v \<Longrightarrow>
     length (fst (fillRow grid rows cols r c gridRow rnd k)) = length gridRow \<and>
     (\<forall>v \<in> set (fst (fillRow grid rows cols r c gridRow rnd k)). paletteColor v)"
proof (induction gridRow arbitrary: c k)
  case Nil
  then show ?case by simp
next
  case (Cons cell rest)
  let ?closest = "findClosestColoredNeighbor grid r c rows cols"
  let ?vk = "if cell \<noteq> Null then (cell, k)
             else (let closest = ?closest
                   in if falsy closest then randomCyberpunkColor rnd k else (closest, k))"
  have v: "paletteColor (fst ?vk)"
    using Cons.prems findClosestColoredNeighbor_cases [OF assms(1), of r c]
      randomCyberpunkColor_palette [OF assms(2), of k]
    by (auto simp: Let_def)
  have rest: "length (fst (fillRow grid rows cols r (c + 1) rest rnd (snd ?vk))) = length rest \<and>
     (\<forall>v \<in> set (fst (fillRow grid rows cols r (c + 1) rest rnd (snd ?vk))). paletteColor v)"
    using Cons.prems by (intro Cons.IH) simp
  have "fst (fillRow grid rows cols r c (cell # rest) rnd k) =
          fst ?vk # fst (fillRow grid rows cols r (c + 1) rest rnd (snd ?vk))"
    by (simp add: Let_def case_prod_unfold)
  with v rest show ?case by simp
qed

lemma fillRows_filled:
  assumes "wellFormed rows cols grid" and "unitRange rnd"
  shows "\<forall>gridRow \<in> set gridRows. length gridRow = nat cols \<and>
           (\<forall>v \<in> set gridRow. v = Null \<or> paletteColor v) \<Longrightarrow>
     length (fst (fillRows grid rows cols r gridRows rnd k)) = length gridRows \<and>
     (\<forall>gridRow \<in> set (fst (fillRows grid rows cols r gridRows rnd k)).
        length gridRow = nat cols \<and> (\<forall>v \<in> set gridRow. paletteColor v))"
proof (induction gridRows arbitrary: r k)
  case Nil
  then show ?case by simp
next
  case (Cons gridRow rest)
  let ?first = "fillRow grid rows cols r 0 gridRow rnd k"
  have first: "length (fst ?first) = nat cols \<and> (\<forall>v \<in> set (fst ?first). paletteColor v)"
    using fillRow_filled [OF assms, of gridRow r 0 k] Cons.prems by simp
  have rest: "length (fst (fillRows grid rows cols (r + 1) rest rnd (snd ?first))) = length rest \<and>
     (\<forall>gridRow \<in> set (fst (fillRows grid rows cols (r + 1) rest rnd (snd ?first))).
        length gridRow = nat cols \<and> (\<forall>v \<in> set gridRow. paletteColor v))"
    using Cons.prems by (intro Cons.IH) simp
  have "fst (fillRows grid rows cols r (gridRow # rest) rnd k) =
          fst ?first # fst (fillRows grid rows cols (r + 1) rest rnd (snd ?first))"
    by (simp add: Let_def case_prod_unfold)
  with first rest show ?case by simp
qed

lemma fillRemainingCells_filled:
  assumes "wellFormed rows cols grid" and "unitRange rnd"
  shows "length (fst (fillRemainingCells grid rows cols rnd k)) = nat rows \<and>
     (\<forall>gridRow \<in> set (fst (fillRemainingCells grid rows cols rnd k)).
        length gridRow = nat cols \<and> (\<forall>v \<in> set gridRow. paletteColor v))"
  using fillRows_filled [OF assms, of grid 0 k] assms(1)
  by (simp add: fillRemainingCells_def wellFormed_def)

lemma wellFormed_blank: "wellFormed rows cols (replicate (nat rows) (replicate (nat cols) Null))"
  by (simp add: wellFormed_def)

lemma generateGridWithZones_filled:
  assumes "unitRange rnd" and "0 < rows" and "0 < cols"
  shows "length (generateGridWithZones rows cols organicness rnd) = nat rows \<and>
     (\<forall>gridRow \<in> set (generateGridWithZones rows cols organicness rnd).
        length gridRow = nat cols \<and> (\<forall>v \<in> set gridRow. paletteColor v))"
proof (cases "organicness = 0")
  case True
  then have "generateGridWithZones rows cols organicness rnd =
               fst (randomRows (nat rows) (nat cols) rnd 1)"
    using assms(2,3) by (simp add: generateGridWithZones_def Let_def)
  then show ?thesis
    using randomRows_length [of "nat rows" "nat cols" rnd 1]
      randomRows_rows [of _ "nat rows" "nat cols" rnd 1] assms(1) by auto
next
  case False
  let ?seeds = "createTerritorySeeds (nat (calculateTerritoryCount rows cols organicness))
                  rows cols rnd 1"
  let ?grid1 = "placeSeeds (replicate (nat rows) (replicate (nat cols) Null)) (fst ?seeds)"
  let ?loop = "growLoop (nat (rows * cols)) ?grid1 (fst ?seeds) (length (fst ?seeds))
                 rows cols (rnd 0 * 10000) organicness rnd (snd ?seeds)"
  have gen: "generateGridWithZones rows cols organicness rnd =
               fst (fillRemainingCells (fst ?loop) rows cols rnd (snd ?loop))"
    using False assms(2,3) by (simp add: generateGridWithZones_def Let_def case_prod_unfold)
  have colors: "\<forall>t \<in> set (fst ?seeds). paletteColor (color t)"
    using createTerritorySeeds_palette [OF assms(1)] by blast
  have "wellFormed rows cols ?grid1"
    using placeSeeds_wellFormed [OF wellFormed_blank colors] .
  then have "wellFormed rows cols (fst ?loop)"
    using colors by (rule growLoop_wellFormed)
  then show ?thesis
    unfolding gen using assms(1) by (rule fillRemainingCells_filled)
qed

lemma generateGrid_filled:
  assumes "unitRange rnd" and "0 < rows" and "0 < cols"
  shows "length (generateGrid rows cols rnd) = nat rows \<and>
     (\<forall>gridRow \<in> set (generateGrid rows cols rnd).
        length gridRow = nat cols \<and> (\<forall>v \<in> set gridRow. paletteColor v))"
proof -
  have "generateGrid rows cols rnd = fst (randomRows (nat rows) (nat cols) rnd 0)"
    using assms(2,3) by (simp add: generateGrid_def)
  then show ?thesis
    using randomRows_length [of "nat rows" "nat cols" rnd 0]
      randomRows_rows [of _ "nat rows" "nat cols" rnd 0] assms(1) by auto
qed

section \<open>Facts about the noise\<close>

text \<open>
  Bounds on \<open>cos\<close> and \<open>sin\<close> from their Taylor polynomials, bounds on \<open>pi\<close> from the sign
  of \<open>cos\<close> on both sides of \<open>pi / 2\<close>, and from them the values of \<open>simplex\<close> at the
  lattice points next to the origin.
\<close>

lemma cos_taylor8:
  fixes x :: real
  shows "\<bar>cos x - (1 - x\<^sup>2 / 2 + x ^ 4 / 24 - x ^ 6 / 720 + x ^ 8 / 40320)\<bar> \<le> \<bar>x\<bar> ^ 10 / 3628800"
proof -
  obtain t where t: "cos x = (\<Sum>m<10. cos_coeff m * x ^ m) +
      (cos (t + 1 / 2 * real (10::nat) * pi) / fact 10) * x ^ 10"
    using Maclaurin_cos_expansion [of x 10] by blast
  have s: "(\<Sum>m<10. cos_coeff m * x ^ m) = 1 - x\<^sup>2 / 2 + x ^ 4 / 24 - x ^ 6 / 720 + x ^ 8 / 40320"
  proof -
    have "{..<10::nat} = {0, 1, 2, 3, 4, 5, 6, 7, 8, 9}" by auto
    then show ?thesis
      by (simp add: cos_coeff_def fact_numeral)
  qed
  have f: "fact 10 = (3628800::real)"
    by (simp add: fact_numeral)
  have "\<bar>cos x - (1 - x\<^sup>2 / 2 + x ^ 4 / 24 - x ^ 6 / 720 + x ^ 8 / 40320)\<bar> =
          \<bar>cos (t + 1 / 2 * real (10::nat) * pi)\<bar> * \<bar>x\<bar> ^ 10 / 3628800"
    unfolding t s f by (simp add: abs_mult power_abs)
  also have "\<dots> \<le> 1 * \<bar>x\<bar> ^ 10 / 3628800"
    by (intro divide_right_mono mult_right_mono) simp_all
  finally show ?thesis by simp
qed

lemma sin_taylor3:
  fixes x :: real
  shows "\<bar>sin x - (x - x ^ 3 / 6)\<bar> \<le> \<bar>x\<bar> ^ 5 / 120"
proof -
  have s: "(\<Sum>m<5. sin_coeff m * x ^ m) = x - x ^ 3 / 6"
  proof -
    have "{..<5::nat} = {0, 1, 2, 3, 4}" by auto
    then show ?thesis
      by (simp add: sin_coeff_def fact_numeral)
  qed
  have f: "inverse (fact 5) = (1 / 120::real)"
    by (simp add: fact_numeral)
  show ?thesis
    using Maclaurin_sin_bound [of x 5] unfolding s f by simp
qed

lemma pi_lower: "3.14 < pi"
proof -
  have "(1 - 1.57\<^sup>2 / 2 + 1.57 ^ 4 / 24 - 1.57 ^ 6 / 720 + 1.57 ^ 8 / 40320)
          - \<bar>1.57::real\<bar> ^ 10 / 3628800 \<le> cos 1.57"
    using cos_taylor8 [of "1.57"] by linarith
  moreover have "0 < (1 - 1.57\<^sup>2 / 2 + 1.57 ^ 4 / 24 - 1.57 ^ 6 / 720 + 1.57 ^ 8 / 40320)
          - \<bar>1.57::real\<bar> ^ 10 / 3628800"
    by (simp add: power_divide)
  ultimately have pos: "0 < cos (1.57::real)"
    by (rule less_le_trans [rotated])
  have "1.57 < pi / 2"
  proof (rule ccontr)
    assume "\<not> 1.57 < pi / 2"
    then have "pi / 2 \<le> 1.57" by simp
    moreover have "(1.57::real) \<le> pi" using pi_ge_two by simp
    ultimately have "cos 1.57 \<le> cos (pi / 2)"
      by (intro cos_monotone_0_pi_le) simp_all
    with pos show False by simp
  qed
  then show ?thesis by simp
qed

lemma pi_upper: "pi < 3.143"
proof -
  have "cos 1.5715 \<le> (1 - 1.5715\<^sup>2 / 2 + 1.5715 ^ 4 / 24 - 1.5715 ^ 6 / 720
            + 1.5715 ^ 8 / 40320) + \<bar>1.5715::real\<bar> ^ 10 / 3628800"
    using cos_taylor8 [of "1.5715"] by linarith
  moreover have "(1 - 1.5715\<^sup>2 / 2 + 1.5715 ^ 4 / 24 - 1.5715 ^ 6 / 720
            + 1.5715 ^ 8 / 40320) + \<bar>1.5715::real\<bar> ^ 10 / 3628800 < 0"
    by (simp add: power_divide)
  ultimately have neg: "cos (1.5715::real) < 0"
    by (rule le_less_trans)
  have "pi / 2 < 1.5715"
  proof (rule ccontr)
    assume "\<not> pi / 2 < 1.5715"
    then have "1.5715 \<le> pi / 2" by simp
    then have "cos (pi / 2) \<le> cos 1.5715"
      by (intro cos_monotone_0_pi_le) simp_all
    with neg show False by simp
  qed
  then show ?thesis by simp
qed


lemma sin_lower:
  fixes x :: real
  assumes "0 \<le> a" and "a \<le> x" and "x \<le> b"
  shows "a - b ^ 3 / 6 - b ^ 5 / 120 \<le> sin x"
proof -
  have x0: "0 \<le> x" using assms by simp
  have p3: "x ^ 3 \<le> b ^ 3" using x0 assms(3) by (rule power_mono [rotated])
  have p5: "\<bar>x\<bar> ^ 5 \<le> b ^ 5" using x0 assms(3) by (simp add: power_mono)
  show ?thesis
    using sin_taylor3 [of x] p3 p5 assms(2) by linarith
qed

lemma cos_lower:
  fixes y :: real
  assumes "\<bar>y\<bar> \<le> b"
  shows "1 - b\<^sup>2 / 2 - b ^ 6 / 720 - b ^ 10 / 3628800 \<le> cos y"
proof -
  have p: "\<bar>y\<bar> ^ n \<le> b ^ n" for n
    using assms by (simp add: power_mono)
  have e2: "y\<^sup>2 = \<bar>y\<bar>\<^sup>2" and e6: "y ^ 6 = \<bar>y\<bar> ^ 6"
    by (simp_all add: power_even_abs)
  have "0 \<le> y ^ 4" "0 \<le> y ^ 8" by simp_all
  then show ?thesis
    using cos_taylor8 [of y] p [of 2] p [of 6] p [of 10] e2 e6 by linarith
qed

lemma sin_shift:
  fixes x :: real
  shows "sin (x + 2 * pi * real n) = sin x"
proof (induction n)
  case 0
  show ?case by simp
next
  case (Suc n)
  have "x + 2 * pi * real (Suc n) = (x + 2 * pi * real n) + 2 * pi"
    by (simp add: algebra_simps)
  then show ?case
    using Suc by (simp only: sin_periodic)
qed

lemma sin_12_9898: "0.404 \<le> sin (12.9898::real) \<and> sin (12.9898::real) \<le> 0.4298"
proof -
  define x where "x = 12.9898 - 4 * pi"
  have eq: "sin (12.9898::real) = sin x"
    using sin_shift [of x 2] by (simp add: x_def)
  have lo: "0.4178 \<le> x" and hi: "x \<le> 0.4298"
    using pi_lower pi_upper by (simp_all add: x_def)
  have "0.4178 - 0.4298 ^ 3 / 6 - 0.4298 ^ 5 / 120 \<le> sin x"
    using lo hi by (intro sin_lower) simp_all
  moreover have "(0.404::real) \<le> 0.4178 - 0.4298 ^ 3 / 6 - 0.4298 ^ 5 / 120"
    by (simp add: power_divide)
  moreover have "sin x \<le> x"
    using lo by (intro sin_x_le_x) simp
  ultimately show ?thesis
    unfolding eq using hi by linarith
qed

lemma sin_78_233: "0.26 \<le> sin (78.233::real) \<and> sin (78.233::real) \<le> 0.342"
proof -
  define x where "x = 25 * pi - 78.233"
  have "sin (78.233::real) = sin (pi - x)"
    using sin_shift [of "pi - x" 12] by (simp add: x_def)
  then have eq: "sin (78.233::real) = sin x" by simp
  have lo: "0.267 \<le> x" and hi: "x \<le> 0.342"
    using pi_lower pi_upper by (simp_all add: x_def)
  have "0.267 - 0.342 ^ 3 / 6 - 0.342 ^ 5 / 120 \<le> sin x"
    using lo hi by (intro sin_lower) simp_all
  moreover have "(0.26::real) \<le> 0.267 - 0.342 ^ 3 / 6 - 0.342 ^ 5 / 120"
    by (simp add: power_divide)
  moreover have "sin x \<le> x"
    using lo by (intro sin_x_le_x) simp
  ultimately show ?thesis
    unfolding eq using hi by linarith
qed

lemma sin_39_346: "0.995 \<le> sin (39.346::real) \<and> sin (39.346::real) \<le> 1"
proof -
  define y where "y = 12.5 * pi - 39.346"
  have "sin (39.346::real) = sin (pi / 2 - y)"
    using sin_shift [of "pi / 2 - y" 6] by (simp add: y_def)
  then have eq: "sin (39.346::real) = cos y"
    by (simp add: cos_sin_eq)
  have "\<bar>y\<bar> \<le> 0.096"
    using pi_lower pi_upper by (simp add: y_def abs_le_iff)
  then have "1 - 0.096\<^sup>2 / 2 - 0.096 ^ 6 / 720 - 0.096 ^ 10 / 3628800 \<le> cos y"
    by (rule cos_lower)
  moreover have "(0.995::real) \<le> 1 - 0.096\<^sup>2 / 2 - 0.096 ^ 6 / 720 - 0.096 ^ 10 / 3628800"
    by (simp add: power_divide)
  ultimately show ?thesis
    unfolding eq by simp
qed

lemma sin_14_234: "0.994 \<le> sin (14.234::real) \<and> sin (14.234::real) \<le> 1"
proof -
  define y where "y = 4.5 * pi - 14.234"
  have "sin (14.234::real) = sin (pi / 2 - y)"
    using sin_shift [of "pi / 2 - y" 2] by (simp add: y_def)
  then have eq: "sin (14.234::real) = cos y"
    by (simp add: cos_sin_eq)
  have "\<bar>y\<bar> \<le> 0.104"
    using pi_lower pi_upper by (simp add: y_def abs_le_iff)
  then have "1 - 0.104\<^sup>2 / 2 - 0.104 ^ 6 / 720 - 0.104 ^ 10 / 3628800 \<le> cos y"
    by (rule cos_lower)
  moreover have "(0.994::real) \<le> 1 - 0.104\<^sup>2 / 2 - 0.104 ^ 6 / 720 - 0.104 ^ 10 / 3628800"
    by (simp add: power_divide)
  ultimately show ?thesis
    unfolding eq by simp
qed

lemma product_bounds:
  fixes s t :: real
  assumes "a \<le> s" "s \<le> b" "c \<le> t" "t \<le> 1" "0 \<le> a" "0 \<le> c"
  shows "a * c \<le> s * t \<and> s * t \<le> b"
proof -
  have "a * c \<le> s * t"
    using assms by (intro mult_mono) simp_all
  moreover have "s * t \<le> b * 1"
    using assms by (intro mult_mono) simp_all
  ultimately show ?thesis by simp
qed

lemma scaled_bounds:
  fixes s :: real
  assumes "a \<le> s \<and> s \<le> b" and "0 \<le> k" and "v = s * k"
  shows "k * a \<le> v \<and> v \<le> k * b"
proof -
  have "k * a \<le> k * s" "k * s \<le> k * b"
    using assms(1,2) by (simp_all add: mult_left_mono)
  then show ?thesis
    unfolding assms(3) by (simp add: mult.commute)
qed

lemma simplex_0_0: "simplex 0 0 = 0"
  by (simp add: simplex_def)

lemma simplex_1_0:
  "43758.5453 * (0.404 * 0.995) \<le> simplex 1 0 \<and> simplex 1 0 \<le> 43758.5453 * 0.4298"
proof (rule scaled_bounds)
  show "0.404 * 0.995 \<le> sin (12.9898::real) * sin (39.346::real) \<and>
        sin (12.9898::real) * sin (39.346::real) \<le> 0.4298"
    using sin_12_9898 sin_39_346 by (intro product_bounds) simp_all
  show "(0::real) \<le> 43758.5453" by simp
  show "simplex 1 0 = sin (12.9898::real) * sin (39.346::real) * 43758.5453"
    by (simp add: simplex_def)
qed

lemma simplex_0_1:
  "43758.5453 * (0.26 * 0.994) \<le> simplex 0 1 \<and> simplex 0 1 \<le> 43758.5453 * 0.342"
proof (rule scaled_bounds)
  show "0.26 * 0.994 \<le> sin (78.233::real) * sin (14.234::real) \<and>
        sin (78.233::real) * sin (14.234::real) \<le> 0.342"
    using sin_78_233 sin_14_234 by (intro product_bounds) simp_all
  show "(0::real) \<le> 43758.5453" by simp
  show "simplex 0 1 = sin (78.233::real) * sin (14.234::real) * 43758.5453"
    by (simp add: simplex_def)
qed

lemma simplex_abs: "\<bar>simplex x y\<bar> \<le> 43758.5453"
proof -
  define s where "s = sin (x * 12.9898 + y * 78.233) * sin (x * 39.346 + y * 14.234)"
  have "\<bar>s\<bar> \<le> 1 * 1"
    unfolding s_def abs_mult by (intro mult_mono) simp_all
  then have "\<bar>s\<bar> * 43758.5453 \<le> 1 * 43758.5453"
    by (intro mult_right_mono) simp_all
  moreover have "\<bar>simplex x y\<bar> = \<bar>s\<bar> * 43758.5453"
    unfolding simplex_def s_def [symmetric] by (simp add: abs_mult)
  ultimately show ?thesis by simp
qed

lemma noise_window:
  fixes a b c :: real
  assumes "43758.5453 * (0.404 * 0.995) \<le> a" and "a \<le> 43758.5453 * 0.4298"
    and "43758.5453 * (0.26 * 0.994) \<le> b" and "b \<le> 43758.5453 * 0.342"
    and "\<bar>c\<bar> \<le> 43758.5453"
  shows "3 / 4 < (a * (6755032 / 244140625000)) * (1 - 6755032 / 244140625000) +
            (b * (1 - 6755032 / 244140625000) + c * (6755032 / 244140625000))
              * (6755032 / 244140625000) \<and>
         (a * (6755032 / 244140625000)) * (1 - 6755032 / 244140625000) +
            (b * (1 - 6755032 / 244140625000) + c * (6755032 / 244140625000))
              * (6755032 / 244140625000) < 1"
proof -
  have a: "17589 \<le> a" "a \<le> 18808"
    using assms(1,2) by simp_all
  have b: "11308 \<le> b" "b \<le> 14966"
    using assms(3,4) by simp_all
  have c: "- 43759 \<le> c" "c \<le> 43759"
    using assms(5) by (simp_all add: abs_le_iff)
  have e: "(a * (6755032 / 244140625000)) * (1 - 6755032 / 244140625000) +
            (b * (1 - 6755032 / 244140625000) + c * (6755032 / 244140625000))
              * (6755032 / 244140625000) =
           (a + b) * ((6755032 / 244140625000) * (1 - 6755032 / 244140625000)) +
           c * ((6755032 / 244140625000) * (6755032 / 244140625000))"
    by (simp add: algebra_simps)
  define k1 :: real where "k1 = (6755032 / 244140625000) * (1 - 6755032 / 244140625000)"
  define k2 :: real where "k2 = (6755032 / 244140625000) * (6755032 / 244140625000)"
  have k: "0 \<le> k1" "0 \<le> k2"
    by (simp_all add: k1_def k2_def)
  have ab: "28897 \<le> a + b" "a + b \<le> 33774"
    using a b by simp_all
  have l1: "28897 * k1 \<le> (a + b) * k1" and u1: "(a + b) * k1 \<le> 33774 * k1"
    using ab k by (simp_all add: mult_right_mono)
  have l2: "- 43759 * k2 \<le> c * k2"
    using c(1) k(2) by (rule mult_right_mono)
  have u2: "c * k2 \<le> 43759 * k2"
    using c(2) k(2) by (rule mult_right_mono)
  have l3: "3 / 4 < 28897 * k1 + - 43759 * k2"
    by (simp add: k1_def k2_def)
  have u3: "33774 * k1 + 43759 * k2 < 1"
    by (simp add: k1_def k2_def)
  have "3 / 4 < (a + b) * k1 + c * k2"
    by (rule less_le_trans [OF l3 add_mono [OF l1 l2]])
  moreover have "(a + b) * k1 + c * k2 < 1"
    by (rule le_less_trans [OF add_mono [OF u1 u2] u3])
  ultimately show ?thesis
    unfolding e k1_def k2_def by (rule conjI)
qed


lemma perlinNoise_near_origin:
  "perlinNoise (19 / 3125) (19 / 3125) 2 =
     jsRem ((simplex 1 0 * (6755032 / 244140625000)) * (1 - 6755032 / 244140625000) +
            (simplex 0 1 * (1 - 6755032 / 244140625000) +
             simplex 1 1 * (6755032 / 244140625000)) * (6755032 / 244140625000)) 1"
proof -
  have fl: "\<lfloor>(19 / 3125 :: real) / 2\<rfloor> = 0" by simp
  have rem: "jsRem (19 / 3125) 2 = 19 / 3125"
    by (simp add: jsRem_def)
  have uu: "(19 / 3125 / 2 :: real) * (19 / 3125 / 2) * (3 - 2 * (19 / 3125 / 2)) =
              6755032 / 244140625000"
    by simp
  show ?thesis
    unfolding perlinNoise_def Let_def fl rem uu
    by (simp add: simplex_0_0)
qed


section \<open>The claims\<close>

text \<open>
  C1. In a rectangular grid, with a valid start whose colour is not the target colour, the
  cells of the last snapshot that differ from the input grid are exactly the region of the
  start cell (the 4-connected component of cells of its original colour reachable from it),
  every cell of the region has the target colour in the last snapshot, and the last snapshot
  has the shape of the input grid.
\<close>

theorem floodFill_fills_region:
  assumes "rectangular grid" and "isValidPosition grid row col"
    and "getCellColor grid row col \<noteq> Some targetColor"
  shows "changedCells grid (last (floodFill grid row col targetColor)) = region grid row col \<and>
         (\<forall>r c. (r, c) \<in> region grid row col \<longrightarrow>
            getCellColor (last (floodFill grid row col targetColor)) r c = Some targetColor) \<and>
         map length (last (floodFill grid row col targetColor)) = map length grid"
proof -
  obtain orig where orig: "getCellColor grid row col = Some orig"
    using assms(1,2) by (auto simp: rectangular_valid_cell)
  with assms(3) have ne: "targetColor \<noteq> orig" by auto
  obtain rows cols where dims: "getGridDimensions grid = (rows, cols)"
    by (cases "getGridDimensions grid")
  have ff: "floodFill grid row col targetColor =
              floodFillRecursive grid [(row, col)] (Some orig) targetColor
                {createPositionKey row col} rows cols [grid]"
    using assms(2,3) orig dims by (simp add: floodFill_def cloneGrid_id)
  show ?thesis
    unfolding ff
    by (rule floodFillRecursive_last [OF fillInv_init [OF orig ne] refl ne orig dims]) simp_all
qed

theorem floodFill_fills_region_witness:
  "rectangular [[''R'', ''R'', ''G'']] \<and> isValidPosition [[''R'', ''R'', ''G'']] 0 0 \<and>
   getCellColor [[''R'', ''R'', ''G'']] 0 0 \<noteq> Some ''B'' \<and>
   last (floodFill [[''R'', ''R'', ''G'']] 0 0 ''B'') = [[''B'', ''B'', ''G'']] \<and>
   changedCells [[''R'', ''R'', ''G'']] [[''B'', ''B'', ''G'']] = region [[''R'', ''R'', ''G'']] 0 0"
proof -
  have h1: "rectangular [[''R'', ''R'', ''G'']]"
    by (simp add: rectangular_def)
  have h2: "isValidPosition [[''R'', ''R'', ''G'']] 0 0"
    by (simp add: isValidPosition_def)
  have h3: "getCellColor [[''R'', ''R'', ''G'']] 0 0 \<noteq> Some ''B''"
    by (simp add: getCellColor_def isValidPosition_def jsIndex_def)
  have run: "last (floodFill [[''R'', ''R'', ''G'']] 0 0 ''B'') = [[''B'', ''B'', ''G'']]"
    by code_simp
  show ?thesis
    using h1 h2 h3 run floodFill_fills_region [OF h1 h2 h3] by simp
qed

text \<open>
  C2. For every call on a rectangular grid the snapshot list is not empty and starts with
  the input grid; the set of cells that differ from the input grid grows from any snapshot
  to any later one, strictly from each snapshot to the next; and a cell that differs from the
  input grid holds the target colour, in every snapshot.
\<close>

theorem floodFill_snapshots_grow:
  assumes "rectangular grid"
  shows "floodFill grid row col targetColor \<noteq> [] \<and>
         hd (floodFill grid row col targetColor) = grid \<and>
         (\<forall>i j. i < j \<and> j < length (floodFill grid row col targetColor) \<longrightarrow>
            changedCells grid (floodFill grid row col targetColor ! i)
              \<subseteq> changedCells grid (floodFill grid row col targetColor ! j)) \<and>
         (\<forall>i. 0 < i \<and> i < length (floodFill grid row col targetColor) \<longrightarrow>
            changedCells grid (floodFill grid row col targetColor ! (i - 1))
              \<subset> changedCells grid (floodFill grid row col targetColor ! i)) \<and>
         (\<forall>i r c. i < length (floodFill grid row col targetColor) \<and>
            (r, c) \<in> changedCells grid (floodFill grid row col targetColor ! i) \<longrightarrow>
            getCellColor (floodFill grid row col targetColor ! i) r c = Some targetColor)"
proof (cases "isValidPosition grid row col \<and> getCellColor grid row col \<noteq> Some targetColor")
  case False
  then have "floodFill grid row col targetColor = [grid]"
    by (auto simp: floodFill_def cloneGrid_id)
  then show ?thesis by (auto simp: changedCells_def)
next
  case True
  obtain orig where orig: "getCellColor grid row col = Some orig"
    using True assms by (auto simp: rectangular_valid_cell)
  with True have ne: "targetColor \<noteq> orig" by auto
  obtain rows cols where dims: "getGridDimensions grid = (rows, cols)"
    by (cases "getGridDimensions grid")
  let ?res = "floodFillRecursive grid [(row, col)] (Some orig) targetColor
                {createPositionKey row col} rows cols [grid]"
  have ff: "floodFill grid row col targetColor = ?res"
    using True orig dims by (simp add: floodFill_def cloneGrid_id)
  have inv: "?res \<noteq> [] \<and> hd ?res = hd [grid] \<and>
             (\<forall>s \<in> set ?res. conforming grid orig targetColor s) \<and> growing grid ?res"
    by (rule floodFillRecursive_snapshots [OF refl ne])
       (simp_all add: conforming_refl growing_def)
  have target: "\<forall>i r c. i < length ?res \<and> (r, c) \<in> changedCells grid (?res ! i) \<longrightarrow>
                  getCellColor (?res ! i) r c = Some targetColor"
    using inv conforming_changed_target by (metis nth_mem)
  show ?thesis
    unfolding ff using inv growing_nth [of grid ?res] target by simp
qed

theorem floodFill_snapshots_grow_witness:
  "rectangular [[''R'', ''R'', ''G'']] \<and>
   floodFill [[''R'', ''R'', ''G'']] 0 0 ''B'' =
     [[[''R'', ''R'', ''G'']], [[''B'', ''R'', ''G'']], [[''B'', ''B'', ''G'']]] \<and>
   changedCells [[''R'', ''R'', ''G'']] [[''R'', ''R'', ''G'']]
     \<subset> changedCells [[''R'', ''R'', ''G'']] [[''B'', ''R'', ''G'']] \<and>
   changedCells [[''R'', ''R'', ''G'']] [[''B'', ''R'', ''G'']]
     \<subset> changedCells [[''R'', ''R'', ''G'']] [[''B'', ''B'', ''G'']]"
proof -
  have h: "rectangular [[''R'', ''R'', ''G'']]"
    by (simp add: rectangular_def)
  have run: "floodFill [[''R'', ''R'', ''G'']] 0 0 ''B'' =
     [[[''R'', ''R'', ''G'']], [[''B'', ''R'', ''G'']], [[''B'', ''B'', ''G'']]]"
    by code_simp
  have strict: "\<forall>i. 0 < i \<and> i < length (floodFill [[''R'', ''R'', ''G'']] 0 0 ''B'') \<longrightarrow>
            changedCells [[''R'', ''R'', ''G'']] (floodFill [[''R'', ''R'', ''G'']] 0 0 ''B'' ! (i - 1))
              \<subset> changedCells [[''R'', ''R'', ''G'']] (floodFill [[''R'', ''R'', ''G'']] 0 0 ''B'' ! i)"
    using floodFill_snapshots_grow [OF h, of 0 0 "''B''"] by blast
  from strict [rule_format, of 1] strict [rule_format, of 2] h run show ?thesis
    by simp
qed

text \<open>
  C4. \<open>floodFillRecursive\<close> is a total function: its definition above comes with the proof
  that every call terminates, on the measure that the source's argument uses (the valid
  positions not yet visited). One step of the level expansion only adds positions of the
  grid rectangle to \<open>visited\<close>, and it either adds one or returns an empty next level, on
  which the next call halts. Each call that does not halt appends one snapshot, so the
  number of snapshots counts the calls: it is at most the grid area plus one.
\<close>

theorem floodFill_terminates_bounded:
  "length (floodFill grid row col targetColor) \<le>
     nat (fst (getGridDimensions grid) * snd (getGridDimensions grid)) + 1 \<and>
   visited \<subseteq> snd (collectNextLevel rows cols processed visited) \<and>
   snd (collectNextLevel rows cols processed visited) \<subseteq> visited \<union> {0..<rows} \<times> {0..<cols} \<and>
   (fst (collectNextLevel rows cols processed visited) = [] \<or>
    card ({0..<rows} \<times> {0..<cols} - snd (collectNextLevel rows cols processed visited))
      < card ({0..<rows} \<times> {0..<cols} - visited))"
proof -
  have a: "length (floodFill grid row col targetColor) \<le>
     nat (fst (getGridDimensions grid) * snd (getGridDimensions grid)) + 1"
    by (rule floodFill_bounded)
  have b: "snd (collectNextLevel rows cols processed visited) =
             visited \<union> set (fst (collectNextLevel rows cols processed visited))"
    by (rule collectNextLevel_visited)
  have c: "set (fst (collectNextLevel rows cols processed visited)) \<subseteq>
             {0..<rows} \<times> {0..<cols} - visited"
    by (rule collectNextLevel_fresh)
  have d: "fst (collectNextLevel rows cols processed visited) = [] \<or>
    card ({0..<rows} \<times> {0..<cols} - snd (collectNextLevel rows cols processed visited))
      < card ({0..<rows} \<times> {0..<cols} - visited)"
    using collectNextLevel_measure [of rows cols processed visited
        "fst (collectNextLevel rows cols processed visited)"
        "snd (collectNextLevel rows cols processed visited)"]
    by auto
  from a b c d show ?thesis by blast
qed

text \<open>
  C3. \<open>floodFill\<close> returns exactly one snapshot, equal to the input grid, whenever the start
  position is not a valid position of the grid or the colour at the start already equals the
  target colour; the empty grid has no valid position, so every call on it is such a case.
  The model has no error value to return: every branch of \<open>floodFill\<close> gives a list.
\<close>

theorem floodFill_degenerate:
  "(\<not> isValidPosition grid row col \<or> getCellColor grid row col = Some targetColor \<longrightarrow>
      floodFill grid row col targetColor = [grid]) \<and>
   \<not> isValidPosition ([] :: 'a grid) row col \<and>
   floodFill ([] :: 'a grid) row col targetColor = [[]]"
  by (auto simp: floodFill_def cloneGrid_id isValidPosition_def)

theorem floodFill_degenerate_witness:
  "\<not> isValidPosition [[''#FF0000'']] 5 5 \<and>
   floodFill [[''#FF0000'']] 5 5 ''#0000FF'' = [[[''#FF0000'']]] \<and>
   getCellColor [[''#FF0000'']] 0 0 = Some ''#FF0000'' \<and>
   floodFill [[''#FF0000'']] 0 0 ''#FF0000'' = [[[''#FF0000'']]]"
  using floodFill_degenerate [of "[[''#FF0000'']]" 5 5 "''#0000FF''"]
    floodFill_degenerate [of "[[''#FF0000'']]" 0 0 "''#FF0000''"]
  by (simp add: isValidPosition_def getCellColor_def jsIndex_def)

text \<open>
  C5. \<open>generateGridWithZones\<close> returns the empty grid when \<open>rows\<close> or \<open>cols\<close> is not
  positive. Otherwise, for any organicness and any random source that keeps the promise of
  \<open>Math.random\<close>, it returns \<open>rows\<close> rows of \<open>cols\<close> cells each, none of them \<open>null\<close> or
  \<open>undefined\<close>.
\<close>

theorem generateGridWithZones_complete:
  "(rows \<le> 0 \<or> cols \<le> 0 \<longrightarrow> generateGridWithZones rows cols organicness rnd = []) \<and>
   (0 < rows \<and> 0 < cols \<and> unitRange rnd \<longrightarrow>
      length (generateGridWithZones rows cols organicness rnd) = nat rows \<and>
      (\<forall>gridRow \<in> set (generateGridWithZones rows cols organicness rnd).
         length gridRow = nat cols \<and> (\<forall>v \<in> set gridRow. v \<noteq> Null \<and> v \<noteq> Undefined)))"
proof (intro conjI impI)
  assume "rows \<le> 0 \<or> cols \<le> 0"
  then show "generateGridWithZones rows cols organicness rnd = []"
    by (simp add: generateGridWithZones_def)
next
  assume a: "0 < rows \<and> 0 < cols \<and> unitRange rnd"
  then show "length (generateGridWithZones rows cols organicness rnd) = nat rows"
    using generateGridWithZones_filled [of rnd rows cols organicness] by simp
  show "\<forall>gridRow \<in> set (generateGridWithZones rows cols organicness rnd).
         length gridRow = nat cols \<and> (\<forall>v \<in> set gridRow. v \<noteq> Null \<and> v \<noteq> Undefined)"
    using a generateGridWithZones_filled [of rnd rows cols organicness]
    by (auto simp: paletteColor_def)
qed

theorem generateGridWithZones_complete_witness:
  "(0::int) < 1 \<and> unitRange (\<lambda>k. 1 / 2) \<and>
   generateGridWithZones 1 1 100 (\<lambda>k. 1 / 2) = [[Str ''#3A86FF'']] \<and>
   length (generateGridWithZones 1 1 100 (\<lambda>k. 1 / 2)) = nat 1 \<and>
   generateGridWithZones 0 5 100 (\<lambda>k. 1 / 2) = []"
proof -
  have u: "unitRange (\<lambda>k. 1 / 2)"
    by (simp add: unitRange_def)
  have run: "generateGridWithZones 1 1 100 (\<lambda>k. 1 / 2) = [[Str ''#3A86FF'']]"
    by (simp add: generateGridWithZones_def calculateTerritoryCount_def Let_def eval_nat_numeral
      randomCyberpunkColor_def jsIndex_def CYBERPUNK_PALETTE_def placeSeeds_def assignCell_def
      growTerritoriesIteration_def growFromCell_def getUnfilledNeighbors_def cellAt_def setAdd_def
      fillRemainingCells_def findClosestColoredNeighbor_def falsy_def)
  show ?thesis
    using u run generateGridWithZones_complete [of 1 1 100 "\<lambda>k. 1 / 2"]
      generateGridWithZones_complete [of 0 5 100 "\<lambda>k. 1 / 2"]
    by simp
qed

text \<open>
  C6. \<open>setCellColor\<close> returns the grid unchanged when the position is not valid. When it is
  valid, in a rectangular grid, the cell at the position holds the new colour, every other
  cell is the one of the input grid, and the shape of the grid is kept.
\<close>

theorem setCellColor_frame:
  "(\<not> isValidPosition grid row col \<longrightarrow> setCellColor grid row col newColor = grid) \<and>
   (isValidPosition grid row col \<and> rectangular grid \<longrightarrow>
      getCellColor (setCellColor grid row col newColor) row col = Some newColor \<and>
      (\<forall>r c. (r, c) \<noteq> (row, col) \<longrightarrow>
         getCellColor (setCellColor grid row col newColor) r c = getCellColor grid r c) \<and>
      map length (setCellColor grid row col newColor) = map length grid)"
  by (auto simp: setCellColor_invalid getCellColor_setCellColor map_length_setCellColor
        rectangular_valid_cell)

theorem setCellColor_frame_witness:
  "isValidPosition [[''a'', ''b''], [''c'', ''d'']] 1 0 \<and>
   rectangular [[''a'', ''b''], [''c'', ''d'']] \<and>
   getCellColor (setCellColor [[''a'', ''b''], [''c'', ''d'']] 1 0 ''x'') 1 0 = Some ''x'' \<and>
   getCellColor (setCellColor [[''a'', ''b''], [''c'', ''d'']] 1 0 ''x'') 0 1 = Some ''b'' \<and>
   \<not> isValidPosition [[''a'', ''b''], [''c'', ''d'']] 2 0 \<and>
   setCellColor [[''a'', ''b''], [''c'', ''d'']] 2 0 ''x'' = [[''a'', ''b''], [''c'', ''d'']]"
  using setCellColor_frame [of "[[''a'', ''b''], [''c'', ''d'']]" 1 0 "''x''"]
    setCellColor_frame [of "[[''a'', ''b''], [''c'', ''d'']]" 2 0 "''x''"]
  by (simp add: isValidPosition_def rectangular_def getCellColor_def jsIndex_def)



text \<open>
  C8. \<open>calculateGrowthProbability\<close> adds \<open>0.3\<close>, \<open>0.4\<close> times the absolute noise and
  \<open>0.4\<close> times \<open>organicness / 100\<close>, and returns the sum as it is. At row 0, column 0,
  seed \<open>0.00608\<close> and organicness 100 the noise is above \<open>3 / 4\<close> and the value returned
  is above 1.
\<close>

theorem growth_probability_above_one:
  "1 < calculateGrowthProbability 0 0 (19 / 3125) 100"
proof -
  define f where "f = (simplex 1 0 * (6755032 / 244140625000)) * (1 - 6755032 / 244140625000) +
            (simplex 0 1 * (1 - 6755032 / 244140625000) +
             simplex 1 1 * (6755032 / 244140625000)) * (6755032 / 244140625000)"
  have "3 / 4 < f \<and> f < 1"
    unfolding f_def using simplex_1_0 simplex_0_1 simplex_abs [of 1 1]
    by (intro noise_window) simp_all
  then have lo: "3 / 4 < f" and hi: "f < 1" by simp_all
  then have "\<lfloor>f\<rfloor> = 0" by (simp add: floor_eq_iff)
  then have "jsRem f 1 = f"
    using lo by (simp add: jsRem_def)
  then have "perlinNoise (19 / 3125) (19 / 3125) 2 = f"
    unfolding perlinNoise_near_origin f_def [symmetric] .
  then have "calculateGrowthProbability 0 0 (19 / 3125) 100 = 0.3 + \<bar>f\<bar> * 0.4 + 0.4"
    by (simp add: calculateGrowthProbability_def Let_def)
  with lo show ?thesis by simp
qed

text \<open>
  C9. \<open>determineFlipDirection\<close> compares the row with the floored centre row first and the
  column with the floored centre column second, both strictly: \<open>up\<close> exactly when the row is
  above the centre row; otherwise \<open>down\<close> exactly when it is below; otherwise \<open>left\<close>
  exactly when the column is left of the centre column; otherwise \<open>right\<close> exactly when it
  is right of it; otherwise \<open>center\<close>.
\<close>

theorem determineFlipDirection_cases:
  "(determineFlipDirection row col totalRows totalCols = ''up'' \<longleftrightarrow> row < totalRows div 2) \<and>
   (\<not> row < totalRows div 2 \<longrightarrow>
      (determineFlipDirection row col totalRows totalCols = ''down'' \<longleftrightarrow> row > totalRows div 2)) \<and>
   (row = totalRows div 2 \<longrightarrow>
      (determineFlipDirection row col totalRows totalCols = ''left'' \<longleftrightarrow> col < totalCols div 2)) \<and>
   (row = totalRows div 2 \<and> \<not> col < totalCols div 2 \<longrightarrow>
      (determineFlipDirection row col totalRows totalCols = ''right'' \<longleftrightarrow> col > totalCols div 2)) \<and>
   (row = totalRows div 2 \<and> col = totalCols div 2 \<longrightarrow>
      determineFlipDirection row col totalRows totalCols = ''center'')"
  by (simp add: determineFlipDirection_def floor_half Let_def)

theorem determineFlipDirection_cases_witness:
  "determineFlipDirection 0 3 5 5 = ''up'' \<and> (0::int) < 5 div 2 \<and>
   determineFlipDirection 4 0 5 5 = ''down'' \<and> \<not> (4::int) < 5 div 2 \<and> (4::int) > 5 div 2 \<and>
   determineFlipDirection 2 1 5 5 = ''left'' \<and> (2::int) = 5 div 2 \<and> (1::int) < 5 div 2 \<and>
   determineFlipDirection 2 3 5 5 = ''right'' \<and> \<not> (3::int) < 5 div 2 \<and> (3::int) > 5 div 2 \<and>
   determineFlipDirection 2 2 5 5 = ''center''"
  using determineFlipDirection_cases [of 0 3 5 5] determineFlipDirection_cases [of 4 0 5 5]
    determineFlipDirection_cases [of 2 1 5 5] determineFlipDirection_cases [of 2 3 5 5]
    determineFlipDirection_cases [of 2 2 5 5]
  by simp

text \<open>
  C10. With a random source that keeps the promise of \<open>Math.random\<close>, every cell of a grid
  returned by \<open>generateGrid\<close> or by \<open>generateGridWithZones\<close> (any organicness) is one of the
  nine strings of \<open>CYBERPUNK_PALETTE\<close>.
\<close>

theorem generated_cells_in_palette:
  assumes "unitRange rnd"
  shows "(\<forall>gridRow \<in> set (generateGrid rows cols rnd).
            \<forall>v \<in> set gridRow. v \<in> Str ` set CYBERPUNK_PALETTE) \<and>
         (\<forall>gridRow \<in> set (generateGridWithZones rows cols organicness rnd).
            \<forall>v \<in> set gridRow. v \<in> Str ` set CYBERPUNK_PALETTE) \<and>
         length CYBERPUNK_PALETTE = 9"
proof (cases "0 < rows \<and> 0 < cols")
  case True
  then show ?thesis
    using generateGrid_filled [OF assms, of rows cols]
      generateGridWithZones_filled [OF assms, of rows cols organicness]
    by (simp add: paletteColor_def CYBERPUNK_PALETTE_def)
next
  case False
  then show ?thesis
    by (auto simp: generateGrid_def generateGridWithZones_def CYBERPUNK_PALETTE_def)
qed

theorem generated_cells_in_palette_witness:
  "unitRange (\<lambda>k. real (k mod 4) / 4) \<and>
   generateGrid 2 2 (\<lambda>k. real (k mod 4) / 4) =
     [[Str ''#FF006E'', Str ''#FFBE0B''], [Str ''#3A86FF'', Str ''#00D9FF'']] \<and>
   Str ''#00D9FF'' \<in> Str ` set CYBERPUNK_PALETTE"
proof -
  have u: "unitRange (\<lambda>k. real (k mod 4) / 4)"
    by (simp add: unitRange_def)
  have draws:
    "randomCyberpunkColor (\<lambda>k. real (k mod 4) / 4) 0 = (Str ''#FF006E'', 1)"
    "randomCyberpunkColor (\<lambda>k. real (k mod 4) / 4) 1 = (Str ''#FFBE0B'', 2)"
    "randomCyberpunkColor (\<lambda>k. real (k mod 4) / 4) 2 = (Str ''#3A86FF'', 3)"
    "randomCyberpunkColor (\<lambda>k. real (k mod 4) / 4) 3 = (Str ''#00D9FF'', 4)"
    by (simp_all add: randomCyberpunkColor_def jsIndex_def CYBERPUNK_PALETTE_def)
  have run: "generateGrid 2 2 (\<lambda>k. real (k mod 4) / 4) =
     [[Str ''#FF006E'', Str ''#FFBE0B''], [Str ''#3A86FF'', Str ''#00D9FF'']]"
    using draws by (simp add: generateGrid_def numeral_2_eq_2 Let_def)
  from generated_cells_in_palette [OF u, of 2 2 0] have
    "\<forall>gridRow \<in> set (generateGrid 2 2 (\<lambda>k. real (k mod 4) / 4)).
      \<forall>v \<in> set gridRow. v \<in> Str ` set CYBERPUNK_PALETTE"
    by (rule conjunct1)
  then have "Str ''#00D9FF'' \<in> Str ` set CYBERPUNK_PALETTE"
    unfolding run by simp
  with u run show ?thesis by (simp only: simp_thms)
qed

end
